theory Spec2Isabelle
  imports Main "HOL-Library.Multiset" "HOL-Library.AList"
begin

section \<open>Data model of langchain/client/langchain.py\<close>

text \<open>
  The dataset runner of \<^verbatim>\<open>LangChainPlusClient\<close>: the per-example evaluators
  \<^verbatim>\<open>run_llm_or_chain\<close> and \<^verbatim>\<open>_arun_llm_or_chain\<close>, the sequential entry point
  \<^verbatim>\<open>run_on_dataset\<close>, and the concurrent one, \<^verbatim>\<open>arun_on_dataset\<close> on top of
  \<^verbatim>\<open>_gather_with_concurrency\<close>. A leading underscore of a Python name is dropped.
\<close>

text \<open>A UUID is represented by its canonical string, so \<^verbatim>\<open>str(example.id)\<close> is the identity.\<close>

type_synonym uuid = string

text \<open>Python values that travel through the runner (\<^verbatim>\<open>Any\<close>).\<close>

datatype pyval = PNone | PStr string | PList "pyval list" | PDict "(string \<times> pyval) list"

text \<open>\<^verbatim>\<open>Dict[str, Any]\<close>, in insertion order; \<^verbatim>\<open>key in inputs\<close> is \<open>map_of inputs key \<noteq> None\<close>.\<close>

type_synonym inputs = "(string \<times> pyval) list"

record example =
  ex_id :: uuid
  ex_inputs :: inputs

text \<open>\<^verbatim>\<open>LangChainTracer\<close>: the session it records to and its mutable example tag.\<close>

record tracer =
  session_name :: string
  example_id :: "uuid option"

text \<open>
  Exceptions. \<open>OtherException\<close> is any other subclass of \<^verbatim>\<open>Exception\<close> with the
  text \<^verbatim>\<open>str(e)\<close>; \<open>Unprintable e'\<close> is an \<^verbatim>\<open>Exception\<close> whose \<^verbatim>\<open>__str__\<close> raises
  \<open>e'\<close>; \<open>NonException\<close> is a \<^verbatim>\<open>BaseException\<close> outside \<^verbatim>\<open>Exception\<close>
  (\<^verbatim>\<open>KeyboardInterrupt\<close>, \<^verbatim>\<open>SystemExit\<close>, \<^verbatim>\<open>asyncio.CancelledError\<close>), which a clause
  \<^verbatim>\<open>except Exception\<close> does not catch.
\<close>

datatype exn =
    ValueError string
  | UnboundLocalError string
  | OtherException string
  | Unprintable exn
  | NonException string

fun is_Exception :: "exn \<Rightarrow> bool" where
  "is_Exception (ValueError m) = True"
| "is_Exception (UnboundLocalError m) = True"
| "is_Exception (OtherException m) = True"
| "is_Exception (Unprintable e') = True"
| "is_Exception (NonException m) = False"

text \<open>What \<^verbatim>\<open>str(e)\<close> raises, if it raises; otherwise \<open>str_exn\<close> is the text it returns.\<close>

fun str_raises :: "exn \<Rightarrow> exn option" where
  "str_raises (Unprintable e') = Some e'"
| "str_raises e = None"

fun str_exn :: "exn \<Rightarrow> string" where
  "str_exn (ValueError m) = m"
| "str_exn (UnboundLocalError m) = m"
| "str_exn (OtherException m) = m"
| "str_exn (Unprintable e') = []"
| "str_exn (NonException m) = m"

text \<open>
  \<^verbatim>\<open>MODEL_OR_CHAIN_FACTORY\<close>: a language model, of which the code asks whether it is a
  \<^verbatim>\<open>BaseLLM\<close>, a \<^verbatim>\<open>BaseChatModel\<close> or neither (in that order), or a zero-argument
  callable that builds a chain.
\<close>

datatype llm_kind = BaseLLM | BaseChatModel | OtherLanguageModel

text \<open>
  Of a language model: its kind, \<^verbatim>\<open>__class__.__name__\<close>, and the text of \<^verbatim>\<open>type(llm)\<close> in
  an f-string.
\<close>

record language_model =
  lm_kind :: llm_kind
  lm_class :: string
  lm_type :: string

datatype target = LanguageModel language_model | ChainFactory

datatype mode = Sync | Async

text \<open>
  Calls that leave the runner, in the order they are made. A chain instance is named by the
  position in the log of the \<open>CallFactory\<close> that built it. A call made with
  \<^verbatim>\<open>callbacks=[langchain_tracer]\<close> records the tracer's example tag at that moment.
\<close>

datatype call =
    CallFactory
  | CallChainRun nat mode inputs "uuid option"
  | CallGenerate mode pyval "uuid option"
  | CallChatGenerate mode pyval "uuid option"
  | CallEnsureSession string
  | CallReadDataset string
  | CallListExamples string

text \<open>
  What the collaborators answer, each as a function of the calls made so far:
  the factory (the class name of the instance it builds), \<^verbatim>\<open>chain.run\<close>/\<^verbatim>\<open>chain.arun\<close>,
  \<^verbatim>\<open>llm.generate\<close>/\<^verbatim>\<open>llm.agenerate\<close> of a \<^verbatim>\<open>BaseLLM\<close> and of a chat model,
  \<^verbatim>\<open>messages_from_dict\<close>, \<^verbatim>\<open>tracer.ensure_session\<close>, \<^verbatim>\<open>read_dataset\<close> (the dataset id),
  \<^verbatim>\<open>list_examples\<close>, the formatted \<^verbatim>\<open>datetime.now()\<close> and the text of \<^verbatim>\<open>{inputs}\<close> in
  an f-string.
\<close>

record env =
  factory :: "call list \<Rightarrow> exn + string"
  chain_run :: "call list \<Rightarrow> nat \<Rightarrow> mode \<Rightarrow> inputs \<Rightarrow> exn + pyval"
  generate :: "call list \<Rightarrow> mode \<Rightarrow> pyval \<Rightarrow> exn + pyval"
  chat_generate :: "call list \<Rightarrow> mode \<Rightarrow> pyval \<Rightarrow> exn + pyval"
  messages_from_dict :: "pyval \<Rightarrow> exn + pyval"
  ensure_session :: "call list \<Rightarrow> exn option"
  read_dataset :: "call list \<Rightarrow> string \<Rightarrow> exn + string"
  list_examples :: "call list \<Rightarrow> string \<Rightarrow> exn + example list"
  now :: "call list \<Rightarrow> string"
  format_inputs :: "inputs \<Rightarrow> string"

section \<open>The per-example evaluator\<close>

text \<open>\<^verbatim>\<open>run_llm\<close> (lines 557-579).\<close>

definition run_llm ::
  "env \<Rightarrow> language_model \<Rightarrow> inputs \<Rightarrow> tracer \<Rightarrow> call list \<Rightarrow> (exn + pyval) \<times> call list" where
  "run_llm en llm inps langchain_tracer log =
     (case lm_kind llm of
        BaseLLM \<Rightarrow>
          (case map_of inps ''prompt'' of
             None \<Rightarrow>
               (Inl (ValueError (''LLM Run must contain 'prompt' key. Got '' @ format_inputs en inps)), log)
           | Some llm_prompt \<Rightarrow>
               (generate en log Sync llm_prompt,
                log @ [CallGenerate Sync llm_prompt (example_id langchain_tracer)]))
      | BaseChatModel \<Rightarrow>
          (case map_of inps ''messages'' of
             None \<Rightarrow>
               (Inl (ValueError (''Chat Model Run must contain 'messages' key. Got ''
                      @ format_inputs en inps)), log)
           | Some raw_messages \<Rightarrow>
               (case messages_from_dict en raw_messages of
                  Inl e \<Rightarrow> (Inl e, log)
                | Inr messages \<Rightarrow>
                    (chat_generate en log Sync messages,
                     log @ [CallChatGenerate Sync messages (example_id langchain_tracer)])))
      | OtherLanguageModel \<Rightarrow>
          (Inl (ValueError (''Unsupported LLM type '' @ lm_type llm)), log))"

text \<open>\<^verbatim>\<open>_arun_llm\<close> (lines 392-411): the same with \<^verbatim>\<open>agenerate\<close> and its own messages.\<close>

definition arun_llm ::
  "env \<Rightarrow> language_model \<Rightarrow> inputs \<Rightarrow> tracer \<Rightarrow> call list \<Rightarrow> (exn + pyval) \<times> call list" where
  "arun_llm en llm inps langchain_tracer log =
     (case lm_kind llm of
        BaseLLM \<Rightarrow>
          (case map_of inps ''prompt'' of
             None \<Rightarrow>
               (Inl (ValueError (''LLM Run requires 'prompt' input. Got '' @ format_inputs en inps)), log)
           | Some llm_prompt \<Rightarrow>
               (generate en log Async llm_prompt,
                log @ [CallGenerate Async llm_prompt (example_id langchain_tracer)]))
      | BaseChatModel \<Rightarrow>
          (case map_of inps ''messages'' of
             None \<Rightarrow>
               (Inl (ValueError (''Chat Run requires 'messages' input. Got ''
                      @ format_inputs en inps)), log)
           | Some raw_messages \<Rightarrow>
               (case messages_from_dict en raw_messages of
                  Inl e \<Rightarrow> (Inl e, log)
                | Inr messages \<Rightarrow>
                    (chat_generate en log Async messages,
                     log @ [CallChatGenerate Async messages (example_id langchain_tracer)])))
      | OtherLanguageModel \<Rightarrow>
          (Inl (ValueError (''Unsupported LLM type '' @ lm_type llm)), log))"

text \<open>
  The body of the \<^verbatim>\<open>try\<close> of one repetition up to the value bound to \<^verbatim>\<open>output\<close>
  (lines 594-600 and 426-434): a language model goes to \<^verbatim>\<open>run_llm\<close>; otherwise the
  factory is called and the chain it returns is run once.
\<close>

definition run_chain ::
  "env \<Rightarrow> mode \<Rightarrow> inputs \<Rightarrow> tracer \<Rightarrow> call list \<Rightarrow> (exn + pyval) \<times> call list" where
  "run_chain en m inps langchain_tracer log =
     (case factory en log of
        Inl e \<Rightarrow> (Inl e, log @ [CallFactory])
      | Inr cls \<Rightarrow>
          (let chain = length log; log1 = log @ [CallFactory] in
           (chain_run en log1 chain m inps,
            log1 @ [CallChainRun chain m inps (example_id langchain_tracer)])))"

definition try_body ::
  "env \<Rightarrow> mode \<Rightarrow> example \<Rightarrow> tracer \<Rightarrow> target \<Rightarrow> call list \<Rightarrow> (exn + pyval) \<times> call list" where
  "try_body en m ex langchain_tracer llm_or_chain_factory log =
     (case llm_or_chain_factory of
        LanguageModel llm \<Rightarrow>
          (case m of
             Sync \<Rightarrow> run_llm en llm (ex_inputs ex) langchain_tracer log
           | Async \<Rightarrow> arun_llm en llm (ex_inputs ex) langchain_tracer log)
      | ChainFactory \<Rightarrow> run_chain en m (ex_inputs ex) langchain_tracer log)"

text \<open>\<^verbatim>\<open>{"Error": str(e)}\<close>\<close>

definition failure_marker :: "exn \<Rightarrow> pyval" where
  "failure_marker e = PDict [(''Error'', PStr (str_exn e))]"

text \<open>
  The loop \<^verbatim>\<open>for _ in range(n_repetitions)\<close> with its \<^verbatim>\<open>try\<close>/\<^verbatim>\<open>except Exception\<close>
  (lines 592-604 and 424-438). An exception that is not an \<^verbatim>\<open>Exception\<close> leaves the loop
  and the function. The handler formats \<^verbatim>\<open>{e}\<close> for \<^verbatim>\<open>logger.warning\<close> and then takes
  \<^verbatim>\<open>str(e)\<close>: when that raises, the new error leaves the handler, the loop and the
  function, and nothing is appended. The warning itself changes nothing modelled here.
\<close>

fun repetitions ::
  "(call list \<Rightarrow> (exn + pyval) \<times> call list) \<Rightarrow> nat \<Rightarrow> pyval list \<Rightarrow> call list
     \<Rightarrow> (exn + pyval list) \<times> call list" where
  "repetitions body 0 outputs log = (Inr outputs, log)"
| "repetitions body (Suc n) outputs log =
     (case body log of
        (Inr output, log') \<Rightarrow> repetitions body n (outputs @ [output]) log'
      | (Inl e, log') \<Rightarrow>
          (if is_Exception e then
             (case str_raises e of
                Some e' \<Rightarrow> (Inl e', log')
              | None \<Rightarrow> repetitions body n (outputs @ [failure_marker e]) log')
           else (Inl e, log')))"

text \<open>
  The evaluator in either mode (lines 589-606 and 421-440). \<^verbatim>\<open>range\<close> of a negative
  number is empty. The tracer is returned as the call leaves it: on an exception that
  propagates, line 605 (439) is not reached.
\<close>

definition llm_or_chain ::
  "env \<Rightarrow> mode \<Rightarrow> example \<Rightarrow> tracer \<Rightarrow> target \<Rightarrow> int \<Rightarrow> call list
     \<Rightarrow> (exn + pyval list) \<times> tracer \<times> call list" where
  "llm_or_chain en m ex langchain_tracer llm_or_chain_factory n_repetitions log =
     (let previous_example_id = example_id langchain_tracer;
          tr = langchain_tracer\<lparr>example_id := Some (ex_id ex)\<rparr> in
      case repetitions (try_body en m ex tr llm_or_chain_factory) (nat n_repetitions) [] log of
        (Inl e, log') \<Rightarrow> (Inl e, tr, log')
      | (Inr outputs, log') \<Rightarrow> (Inr outputs, tr\<lparr>example_id := previous_example_id\<rparr>, log'))"

definition run_llm_or_chain ::
  "env \<Rightarrow> example \<Rightarrow> tracer \<Rightarrow> target \<Rightarrow> int \<Rightarrow> call list
     \<Rightarrow> (exn + pyval list) \<times> tracer \<times> call list" where
  "run_llm_or_chain en = llm_or_chain en Sync"

definition arun_llm_or_chain ::
  "env \<Rightarrow> example \<Rightarrow> tracer \<Rightarrow> target \<Rightarrow> int \<Rightarrow> call list
     \<Rightarrow> (exn + pyval list) \<times> tracer \<times> call list" where
  "arun_llm_or_chain en = llm_or_chain en Async"

section \<open>The sequential entry point\<close>

text \<open>\<^verbatim>\<open>_get_session_name\<close> (lines 112-124). A factory is called once to read the class name.\<close>

definition get_session_name ::
  "env \<Rightarrow> string option \<Rightarrow> target \<Rightarrow> string \<Rightarrow> call list \<Rightarrow> (exn + string) \<times> call list" where
  "get_session_name en session_name_opt llm_or_chain_factory dataset_name log =
     (case session_name_opt of
        Some s \<Rightarrow> (Inr s, log)
      | None \<Rightarrow>
          (let current_time = now en log in
           case llm_or_chain_factory of
             LanguageModel llm \<Rightarrow>
               (Inr (dataset_name @ ''-'' @ lm_class llm @ ''-'' @ current_time), log)
           | ChainFactory \<Rightarrow>
               (case factory en log of
                  Inl e \<Rightarrow> (Inl e, log @ [CallFactory])
                | Inr model_name \<Rightarrow>
                    (Inr (dataset_name @ ''-'' @ model_name @ ''-'' @ current_time),
                     log @ [CallFactory]))))"

text \<open>
  \<^verbatim>\<open>self.read_dataset(dataset_name=...)\<close> followed by \<^verbatim>\<open>self.list_examples(dataset_id=...)\<close>
  (lines 527-528 and 638-639); the HTTP transport behind them is the collaborator.
\<close>

definition fetch_examples ::
  "env \<Rightarrow> string \<Rightarrow> call list \<Rightarrow> (exn + example list) \<times> call list" where
  "fetch_examples en dataset_name log =
     (case read_dataset en log dataset_name of
        Inl e \<Rightarrow> (Inl e, log @ [CallReadDataset dataset_name])
      | Inr dataset_id \<Rightarrow>
          (let log1 = log @ [CallReadDataset dataset_name] in
           (list_examples en log1 dataset_id, log1 @ [CallListExamples dataset_id])))"

text \<open>\<^verbatim>\<open>LangChainTracer(session_name=session_name)\<close>: a new tracer carries no example tag.\<close>

definition new_tracer :: "string \<Rightarrow> tracer" where
  "new_tracer s = \<lparr>session_name = s, example_id = None\<rparr>"

text \<open>
  The loop of lines 643-651. It binds \<^verbatim>\<open>example\<close> and \<^verbatim>\<open>result\<close> anew in every round
  and stores nothing; what is left after the loop is the last binding, or none when the
  list is empty. \<^verbatim>\<open>print\<close> under \<^verbatim>\<open>verbose\<close> changes nothing modelled here.
\<close>

fun examples_loop ::
  "env \<Rightarrow> target \<Rightarrow> int \<Rightarrow> example list \<Rightarrow> (example \<times> pyval list) option \<Rightarrow> tracer \<Rightarrow> call list
     \<Rightarrow> (exn + (example \<times> pyval list) option) \<times> tracer \<times> call list" where
  "examples_loop en t n [] bound tr log = (Inr bound, tr, log)"
| "examples_loop en t n (ex # rest) bound tr log =
     (case run_llm_or_chain en ex tr t n log of
        (Inl e, tr', log') \<Rightarrow> (Inl e, tr', log')
      | (Inr result, tr', log') \<Rightarrow> examples_loop en t n rest (Some (ex, result)) tr' log')"

text \<open>
  \<^verbatim>\<open>run_on_dataset\<close> (lines 608-653). Line 652 stands after the loop, at the indentation of
  the \<^verbatim>\<open>for\<close>: it runs once, with the bindings the loop left. An assignment evaluates its
  right-hand side first, so with no binding the name that fails is \<^verbatim>\<open>result\<close>.
\<close>

definition run_on_dataset ::
  "env \<Rightarrow> string \<Rightarrow> target \<Rightarrow> int \<Rightarrow> string option \<Rightarrow> bool \<Rightarrow> call list
     \<Rightarrow> (exn + (string \<times> pyval list) list) \<times> call list" where
  "run_on_dataset en dataset_name llm_or_chain_factory num_repetitions session_name_opt verbose log =
     (case get_session_name en session_name_opt llm_or_chain_factory dataset_name log of
        (Inl e, log1) \<Rightarrow> (Inl e, log1)
      | (Inr sname, log1) \<Rightarrow>
     (case fetch_examples en dataset_name log1 of
        (Inl e, log2) \<Rightarrow> (Inl e, log2)
      | (Inr examples, log2) \<Rightarrow>
     (let results0 = []; tr = new_tracer sname; log3 = log2 @ [CallEnsureSession sname] in
      case ensure_session en log2 of
        Some e \<Rightarrow> (Inl e, log3)
      | None \<Rightarrow>
     (case examples_loop en llm_or_chain_factory num_repetitions examples None tr log3 of
        (Inl e, tr', log4) \<Rightarrow> (Inl e, log4)
      | (Inr None, tr', log4) \<Rightarrow>
          (Inl (UnboundLocalError ''local variable 'result' referenced before assignment''), log4)
      | (Inr (Some (ex, result)), tr', log4) \<Rightarrow>
          (Inr (AList.update (ex_id ex) result results0), log4)))))"

section \<open>The concurrent entry point\<close>

text \<open>
  State that the units of work share: the calls made so far, the tracer objects (a tracer
  is passed around by its address in this list), \<^verbatim>\<open>job_state["num_processed"]\<close>, and the
  dictionary \<^verbatim>\<open>results\<close> of \<^verbatim>\<open>arun_on_dataset\<close> that \<^verbatim>\<open>process_example\<close> closes over.
\<close>

record shared =
  sh_calls :: "call list"
  sh_tracers :: "tracer list"
  sh_num_processed :: nat
  sh_results :: "(string \<times> pyval list) list"

type_synonym async_func = "nat \<Rightarrow> shared \<Rightarrow> (exn + pyval) \<times> shared"

text \<open>
  Where a coroutine \<^verbatim>\<open>run_coroutine_with_semaphore\<close> (lines 466-475) stands: before
  \<^verbatim>\<open>async with semaphore\<close>; past it and before \<^verbatim>\<open>tracer_queue.get()\<close>; holding a tracer,
  inside \<^verbatim>\<open>async_func\<close>; past \<^verbatim>\<open>put_nowait\<close> in the \<^verbatim>\<open>finally\<close> with the outcome of
  \<^verbatim>\<open>async_func\<close>, the semaphore not yet released; finished.
\<close>

datatype ustate =
    Waiting
  | Admitted
  | Running nat
  | CheckedIn "exn + pyval"
  | Done "exn + pyval"

record gstate =
  semaphore :: nat
  tracer_queue :: "nat list"
  tasks :: "ustate list"
  first_raised :: "exn option"
  shared_state :: shared

text \<open>
  One move of coroutine \<open>i\<close>, or \<open>None\<close> when it cannot move: acquiring needs a positive
  semaphore value, \<^verbatim>\<open>get\<close> needs a non-empty queue (first in, first out). \<^verbatim>\<open>async_func\<close>
  runs from the checkout to the \<^verbatim>\<open>finally\<close> in one move; whether it returns or raises,
  the tracer goes back to the queue. Leaving \<^verbatim>\<open>async with\<close> releases the semaphore, and
  the first exception that leaves a coroutine is the one \<^verbatim>\<open>asyncio.gather\<close> raises.
\<close>

definition step :: "async_func list \<Rightarrow> nat \<Rightarrow> gstate \<Rightarrow> gstate option" where
  "step async_funcs i st =
     (if length (tasks st) \<le> i then None
      else case tasks st ! i of
        Waiting \<Rightarrow>
          (if 0 < semaphore st
           then Some (st\<lparr>semaphore := semaphore st - 1, tasks := (tasks st)[i := Admitted]\<rparr>)
           else None)
      | Admitted \<Rightarrow>
          (case tracer_queue st of
             [] \<Rightarrow> None
           | a # q \<Rightarrow> Some (st\<lparr>tracer_queue := q, tasks := (tasks st)[i := Running a]\<rparr>))
      | Running a \<Rightarrow>
          (case (async_funcs ! i) a (shared_state st) of
             (r, s') \<Rightarrow>
               Some (st\<lparr>tracer_queue := tracer_queue st @ [a],
                        tasks := (tasks st)[i := CheckedIn r],
                        shared_state := s'\<rparr>))
      | CheckedIn r \<Rightarrow>
          Some (st\<lparr>semaphore := semaphore st + 1,
                   tasks := (tasks st)[i := Done r],
                   first_raised :=
                     (case first_raised st of
                        Some e \<Rightarrow> Some e
                      | None \<Rightarrow> (case r of Inl e \<Rightarrow> Some e | Inr v \<Rightarrow> None))\<rparr>)
      | Done r \<Rightarrow> None)"

text \<open>An interleaving is the list of the coroutines that move, in order.\<close>

fun run_schedule :: "async_func list \<Rightarrow> nat list \<Rightarrow> gstate \<Rightarrow> gstate option" where
  "run_schedule async_funcs [] st = Some st"
| "run_schedule async_funcs (i # sched) st =
     (case step async_funcs i st of
        None \<Rightarrow> None
      | Some st' \<Rightarrow> run_schedule async_funcs sched st')"

text \<open>The loop of lines 463-464: \<^verbatim>\<open>n\<close> tracers, built one after the other.\<close>

fun build_pool ::
  "(shared \<Rightarrow> (exn + nat) \<times> shared) \<Rightarrow> nat \<Rightarrow> nat list \<Rightarrow> shared \<Rightarrow> (exn + nat list) \<times> shared" where
  "build_pool initializer 0 q s = (Inr q, s)"
| "build_pool initializer (Suc k) q s =
     (case initializer s of
        (Inl e, s') \<Rightarrow> (Inl e, s')
      | (Inr a, s') \<Rightarrow> build_pool initializer k (q @ [a]) s')"

text \<open>
  Lines 459-464: \<^verbatim>\<open>asyncio.Semaphore(n)\<close> raises \<^verbatim>\<open>ValueError\<close> for a negative value and
  accepts zero; \<^verbatim>\<open>job_state\<close> starts at zero; then the pool is built. One coroutine per
  function is handed to \<^verbatim>\<open>asyncio.gather\<close>.
\<close>

definition gather_start ::
  "int \<Rightarrow> (shared \<Rightarrow> (exn + nat) \<times> shared) \<Rightarrow> async_func list \<Rightarrow> shared \<Rightarrow> (exn + gstate) \<times> shared" where
  "gather_start n initializer async_funcs s =
     (if n < 0 then (Inl (ValueError ''Semaphore initial value must be >= 0''), s)
      else case build_pool initializer (nat n) [] (s\<lparr>sh_num_processed := 0\<rparr>) of
        (Inl e, s') \<Rightarrow> (Inl e, s')
      | (Inr q, s') \<Rightarrow>
          (Inr \<lparr>semaphore = nat n, tracer_queue = q,
                tasks = replicate (length async_funcs) Waiting,
                first_raised = None, shared_state = s'\<rparr>, s'))"

fun is_Done :: "ustate \<Rightarrow> bool" where
  "is_Done (Done r) = True"
| "is_Done u = False"

fun result_of :: "ustate \<Rightarrow> pyval" where
  "result_of (Done (Inr v)) = v"
| "result_of u = PNone"

text \<open>
  What \<^verbatim>\<open>await asyncio.gather(...)\<close> has given: the first exception raised by a coroutine,
  or the list of results once every coroutine is finished, or nothing yet.
\<close>

definition gather_result :: "gstate \<Rightarrow> (exn + pyval list) option" where
  "gather_result st =
     (case first_raised st of
        Some e \<Rightarrow> Some (Inl e)
      | None \<Rightarrow>
          (if list_all is_Done (tasks st) then Some (Inr (map result_of (tasks st))) else None))"

text \<open>
  \<^verbatim>\<open>_gather_with_concurrency\<close> (lines 443-479) under an interleaving; \<open>None\<close> when the
  interleaving is not one the coroutines can follow or \<^verbatim>\<open>gather\<close> has not returned at its end.
\<close>

definition gather_with_concurrency ::
  "int \<Rightarrow> (shared \<Rightarrow> (exn + nat) \<times> shared) \<Rightarrow> async_func list \<Rightarrow> nat list \<Rightarrow> shared
     \<Rightarrow> ((exn + pyval list) \<times> shared) option" where
  "gather_with_concurrency n initializer async_funcs sched s =
     (case gather_start n initializer async_funcs s of
        (Inl e, s') \<Rightarrow> Some (Inl e, s')
      | (Inr st0, s') \<Rightarrow>
          (case run_schedule async_funcs sched st0 of
             None \<Rightarrow> None
           | Some st \<Rightarrow>
               (case gather_result st of
                  None \<Rightarrow> None
                | Some r \<Rightarrow> Some (r, shared_state st))))"

text \<open>\<^verbatim>\<open>_tracer_initializer\<close> (lines 481-493); the new tracer's address is returned.\<close>

definition tracer_initializer :: "env \<Rightarrow> string \<Rightarrow> shared \<Rightarrow> (exn + nat) \<times> shared" where
  "tracer_initializer en sname s =
     (let a = length (sh_tracers s);
          s1 = s\<lparr>sh_tracers := sh_tracers s @ [new_tracer sname],
                 sh_calls := sh_calls s @ [CallEnsureSession sname]\<rparr> in
      case ensure_session en (sh_calls s) of
        Some e \<Rightarrow> (Inl e, s1)
      | None \<Rightarrow> (Inr a, s1))"

text \<open>
  \<^verbatim>\<open>process_example\<close> (lines 531-548) with \<^verbatim>\<open>example\<close> bound by \<^verbatim>\<open>functools.partial\<close>;
  it returns \<^verbatim>\<open>None\<close>. The tracer at address \<open>a\<close> is the one the evaluator mutates.
\<close>

definition process_example ::
  "env \<Rightarrow> target \<Rightarrow> int \<Rightarrow> bool \<Rightarrow> example \<Rightarrow> async_func" where
  "process_example en llm_or_chain_factory num_repetitions verbose ex a s =
     (case arun_llm_or_chain en ex (sh_tracers s ! a) llm_or_chain_factory num_repetitions
             (sh_calls s) of
        (Inl e, tr', log') \<Rightarrow>
          (Inl e, s\<lparr>sh_tracers := (sh_tracers s)[a := tr'], sh_calls := log'\<rparr>)
      | (Inr result, tr', log') \<Rightarrow>
          (Inr PNone,
           s\<lparr>sh_tracers := (sh_tracers s)[a := tr'], sh_calls := log',
             sh_results := AList.update (ex_id ex) result (sh_results s),
             sh_num_processed := sh_num_processed s + 1\<rparr>))"

text \<open>\<^verbatim>\<open>arun_on_dataset\<close> (lines 495-555) under an interleaving of its units of work.\<close>

definition arun_on_dataset ::
  "env \<Rightarrow> string \<Rightarrow> target \<Rightarrow> int \<Rightarrow> int \<Rightarrow> string option \<Rightarrow> bool \<Rightarrow> nat list \<Rightarrow> call list
     \<Rightarrow> ((exn + (string \<times> pyval list) list) \<times> call list) option" where
  "arun_on_dataset en dataset_name llm_or_chain_factory concurrency_level num_repetitions
       session_name_opt verbose sched log =
     (case get_session_name en session_name_opt llm_or_chain_factory dataset_name log of
        (Inl e, log1) \<Rightarrow> Some (Inl e, log1)
      | (Inr sname, log1) \<Rightarrow>
     (case fetch_examples en dataset_name log1 of
        (Inl e, log2) \<Rightarrow> Some (Inl e, log2)
      | (Inr examples, log2) \<Rightarrow>
     (case gather_with_concurrency concurrency_level (tracer_initializer en sname)
             (map (process_example en llm_or_chain_factory num_repetitions verbose) examples)
             sched
             \<lparr>sh_calls = log2, sh_tracers = [], sh_num_processed = 0, sh_results = []\<rparr> of
        None \<Rightarrow> None
      | Some (Inl e, s) \<Rightarrow> Some (Inl e, sh_calls s)
      | Some (Inr rs, s) \<Rightarrow> Some (Inr (sh_results s), sh_calls s))))"

section \<open>Vocabulary of the properties\<close>

text \<open>The chain instances that a stretch of the log runs, in order.\<close>

fun run_instances :: "call list \<Rightarrow> nat list" where
  "run_instances [] = []"
| "run_instances (CallChainRun chain m inps tag # cs) = chain # run_instances cs"
| "run_instances (c # cs) = run_instances cs"

text \<open>
  What one repetition on a factory target adds to the log: the call of the factory and,
  when it built a chain, one run of that chain.
\<close>

definition chain_block :: "env \<Rightarrow> mode \<Rightarrow> inputs \<Rightarrow> uuid option \<Rightarrow> call list \<Rightarrow> call list" where
  "chain_block en m inps tag log =
     (case factory en log of
        Inl e \<Rightarrow> [CallFactory]
      | Inr cls \<Rightarrow> [CallFactory, CallChainRun (length log) m inps tag])"

text \<open>
  An error the handler of line 602 (436) turns into a failure marker: an \<^verbatim>\<open>Exception\<close>
  whose \<^verbatim>\<open>str(e)\<close> returns.
\<close>

definition printable_Exception :: "exn \<Rightarrow> bool" where
  "printable_Exception e = (is_Exception e \<and> str_raises e = None)"

text \<open>Every error the collaborators of the evaluator raise is of that kind.\<close>

definition only_printable_Exceptions :: "env \<Rightarrow> bool" where
  "only_printable_Exceptions en =
     ((\<forall>log e. factory en log = Inl e \<longrightarrow> printable_Exception e)
    \<and> (\<forall>log chain m inps e. chain_run en log chain m inps = Inl e \<longrightarrow> printable_Exception e)
    \<and> (\<forall>log m p e. generate en log m p = Inl e \<longrightarrow> printable_Exception e)
    \<and> (\<forall>log m ms e. chat_generate en log m ms = Inl e \<longrightarrow> printable_Exception e)
    \<and> (\<forall>raw e. messages_from_dict en raw = Inl e \<longrightarrow> printable_Exception e))"

text \<open>
  Coroutines that hold a tracer (past \<^verbatim>\<open>tracer_queue.get()\<close>, before \<^verbatim>\<open>put_nowait\<close>), and
  those inside \<^verbatim>\<open>async with semaphore\<close>.
\<close>

fun is_Running :: "ustate \<Rightarrow> bool" where
  "is_Running (Running a) = True"
| "is_Running u = False"

fun in_gate :: "ustate \<Rightarrow> bool" where
  "in_gate Admitted = True"
| "in_gate (Running a) = True"
| "in_gate (CheckedIn r) = True"
| "in_gate u = False"

text \<open>The tracers held by the coroutines, by address.\<close>

fun holds :: "ustate \<Rightarrow> nat list" where
  "holds (Running a) = [a]"
| "holds u = []"

definition held :: "ustate list \<Rightarrow> nat list" where
  "held ts = concat (map holds ts)"

text \<open>The moves a coroutine still has to make.\<close>

fun todo :: "ustate \<Rightarrow> nat" where
  "todo Waiting = 4"
| "todo Admitted = 3"
| "todo (Running a) = 2"
| "todo (CheckedIn r) = 1"
| "todo (Done r) = 0"

section \<open>Concrete inputs\<close>

text \<open>
  A dataset of three examples and collaborators that always succeed: every chain run and
  every model call answers \<open>ok\<close>.
\<close>

definition exA :: example where
  "exA = \<lparr>ex_id = ''A'', ex_inputs = [(''prompt'', PStr ''a'')]\<rparr>"

definition exB :: example where
  "exB = \<lparr>ex_id = ''B'', ex_inputs = [(''prompt'', PStr ''b'')]\<rparr>"

definition exC :: example where
  "exC = \<lparr>ex_id = ''C'', ex_inputs = [(''prompt'', PStr ''c'')]\<rparr>"

definition env_ok :: env where
  "env_ok =
     \<lparr>factory = (\<lambda>log. Inr ''Chain''),
      chain_run = (\<lambda>log chain m inps. Inr (PStr ''ok'')),
      generate = (\<lambda>log m p. Inr (PStr ''ok'')),
      chat_generate = (\<lambda>log m ms. Inr (PStr ''ok'')),
      messages_from_dict = (\<lambda>raw. Inr raw),
      ensure_session = (\<lambda>log. None),
      read_dataset = (\<lambda>log name. Inr ''ds-id''),
      list_examples = (\<lambda>log dataset_id. Inr [exA, exB, exC]),
      now = (\<lambda>log. ''2023-05-01-00-00-00''),
      format_inputs = (\<lambda>inps. ''{...}'')\<rparr>"

text \<open>The same with an empty dataset, and with a dataset of one example.\<close>

definition env_empty :: env where
  "env_empty = env_ok\<lparr>list_examples := (\<lambda>log dataset_id. Inr [])\<rparr>"

definition env_one :: env where
  "env_one = env_ok\<lparr>list_examples := (\<lambda>log dataset_id. Inr [exA])\<rparr>"

text \<open>A chain whose second run fails, the others succeed.\<close>

definition env_flaky :: env where
  "env_flaky =
     env_ok\<lparr>chain_run := (\<lambda>log chain m inps.
               if chain = 2 then Inl (OtherException ''boom'') else Inr (PStr ''ok''))\<rparr>"

text \<open>A chain whose run is interrupted from the keyboard.\<close>

definition env_interrupt :: env where
  "env_interrupt =
     env_ok\<lparr>chain_run := (\<lambda>log chain m inps. Inl (NonException ''KeyboardInterrupt''))\<rparr>"

text \<open>A chain whose run raises an \<^verbatim>\<open>Exception\<close> whose \<^verbatim>\<open>__str__\<close> raises in turn.\<close>

definition env_unprintable :: env where
  "env_unprintable =
     env_ok\<lparr>chain_run := (\<lambda>log chain m inps.
               Inl (Unprintable (OtherException ''__str__ failed'')))\<rparr>"

text \<open>A tracing backend that accepts one session and refuses the next.\<close>

definition env_no_session :: env where
  "env_no_session =
     env_ok\<lparr>ensure_session := (\<lambda>log.
               if CallEnsureSession ''s'' \<in> set log then Some (OtherException ''unreachable'')
               else None)\<rparr>"

definition tracer0 :: tracer where
  "tracer0 = \<lparr>session_name = ''s'', example_id = Some ''outer''\<rparr>"

definition llm_text :: language_model where
  "llm_text =
     \<lparr>lm_kind = BaseLLM, lm_class = ''OpenAI'',
      lm_type = ''<class 'langchain.llms.openai.OpenAI'>''\<rparr>"

definition llm_chat :: language_model where
  "llm_chat =
     \<lparr>lm_kind = BaseChatModel, lm_class = ''ChatOpenAI'',
      lm_type = ''<class 'langchain.chat_models.openai.ChatOpenAI'>''\<rparr>"

text \<open>
  Three units of work on a pool of two tracers, the chain of each interrupted from the
  keyboard: the state once the pool is built, and the state with two units holding a tracer.
\<close>

definition units3 :: "async_func list" where
  "units3 = map (process_example env_interrupt ChainFactory 1 False) [exA, exB, exC]"

definition pool_shared :: shared where
  "pool_shared =
     \<lparr>sh_calls = [CallEnsureSession ''s'', CallEnsureSession ''s''],
      sh_tracers = [new_tracer ''s'', new_tracer ''s''],
      sh_num_processed = 0, sh_results = []\<rparr>"

definition st_start :: gstate where
  "st_start =
     \<lparr>semaphore = 2, tracer_queue = [0, 1], tasks = [Waiting, Waiting, Waiting],
      first_raised = None, shared_state = pool_shared\<rparr>"

definition st_two_running :: gstate where
  "st_two_running =
     \<lparr>semaphore = 0, tracer_queue = [], tasks = [Running 0, Running 1, Waiting],
      first_raised = None, shared_state = pool_shared\<rparr>"

section \<open>Properties\<close>

lemmas runner_defs =
  run_on_dataset_def get_session_name_def fetch_examples_def new_tracer_def
  run_llm_or_chain_def arun_llm_or_chain_def llm_or_chain_def try_body_def run_chain_def
  run_llm_def arun_llm_def failure_marker_def

lemmas input_defs =
  env_ok_def env_empty_def env_one_def env_flaky_def env_interrupt_def
  env_unprintable_def env_no_session_def exA_def exB_def exC_def tracer0_def llm_text_def llm_chat_def

text \<open>
  C10. When \<^verbatim>\<open>list_examples\<close> gives no example, \<^verbatim>\<open>run_on_dataset\<close> does not return an
  empty map: once the session name, the dataset and the tracer are there, line 652 reads
  names the loop never bound and the call raises \<^verbatim>\<open>UnboundLocalError\<close>, a
  \<^verbatim>\<open>NameError\<close>, having made no call after \<^verbatim>\<open>ensure_session\<close>.
\<close>

theorem run_on_dataset_no_examples:
  assumes "get_session_name en session_name_opt t dataset_name log = (Inr sname, log1)"
    and "fetch_examples en dataset_name log1 = (Inr [], log2)"
    and "ensure_session en log2 = None"
  shows "run_on_dataset en dataset_name t num_repetitions session_name_opt verbose log =
           (Inl (UnboundLocalError ''local variable 'result' referenced before assignment''),
            log2 @ [CallEnsureSession sname])"
  using assms by (simp add: run_on_dataset_def)

theorem run_on_dataset_no_examples_witness:
  "run_on_dataset env_empty ''ds'' ChainFactory 2 (Some ''s'') False [] =
     (Inl (UnboundLocalError ''local variable 'result' referenced before assignment''),
      [CallReadDataset ''ds'', CallListExamples ''ds-id'', CallEnsureSession ''s''])"
proof -
  have a: "get_session_name env_empty (Some ''s'') ChainFactory ''ds'' [] = (Inr ''s'', [])"
    by (simp add: get_session_name_def)
  have b: "fetch_examples env_empty ''ds'' [] =
             (Inr [], [CallReadDataset ''ds'', CallListExamples ''ds-id''])"
    by (simp add: fetch_examples_def env_empty_def env_ok_def)
  have c: "ensure_session env_empty [CallReadDataset ''ds'', CallListExamples ''ds-id''] = None"
    by (simp add: env_empty_def env_ok_def)
  show ?thesis
    using run_on_dataset_no_examples [OF a b c, of 2 False] by simp
qed

text \<open>
  C1, at the scenario of the specification: examples A, B and C, two repetitions, a chain
  that always answers \<open>ok\<close>. \<^verbatim>\<open>run_on_dataset\<close> evaluates all three examples (six
  chain runs) and returns a map with the single key C, where \<^verbatim>\<open>arun_on_dataset\<close> on the
  same input, with two tracers, returns an entry for each of A, B and C.
\<close>

theorem run_on_dataset_keeps_last_only:
  "fst (run_on_dataset env_ok ''ds'' ChainFactory 2 (Some ''s'') False []) =
     Inr [(''C'', [PStr ''ok'', PStr ''ok''])]
   \<and> length (filter (\<lambda>c. c = CallFactory)
        (snd (run_on_dataset env_ok ''ds'' ChainFactory 2 (Some ''s'') False []))) = 6
   \<and> map_option fst
        (arun_on_dataset env_ok ''ds'' ChainFactory 2 2 (Some ''s'') False
           [0, 1, 0, 1, 0, 0, 2, 2, 2, 2, 1, 1] []) =
     Some (Inr [(''A'', [PStr ''ok'', PStr ''ok'']), (''C'', [PStr ''ok'', PStr ''ok'']),
                (''B'', [PStr ''ok'', PStr ''ok''])])"
  by (simp add: runner_defs input_defs numeral_2_eq_2 arun_on_dataset_def
        gather_with_concurrency_def gather_start_def gather_result_def step_def
        tracer_initializer_def process_example_def)

subsection \<open>The repetition loop\<close>

text \<open>The loop of \<open>n + 1\<close> rounds is the loop of \<open>n\<close> rounds followed by one more.\<close>

lemma repetitions_snoc:
  "repetitions body (Suc n) outs log =
     (case repetitions body n outs log of
        (Inl e, l) \<Rightarrow> (Inl e, l)
      | (Inr os, l) \<Rightarrow>
          (case body l of
             (Inr v, l') \<Rightarrow> (Inr (os @ [v]), l')
           | (Inl e, l') \<Rightarrow>
               (if is_Exception e then
                  (case str_raises e of
                     Some e' \<Rightarrow> (Inl e', l')
                   | None \<Rightarrow> (Inr (os @ [failure_marker e]), l'))
                else (Inl e, l'))))"
proof (induction n arbitrary: outs log)
  case 0
  show ?case by (simp split: prod.splits sum.splits option.splits)
next
  case (Suc n)
  obtain r l1 where b: "body log = (r, l1)" by (cases "body log")
  show ?case
  proof (cases r)
    case (Inr v)
    have L: "repetitions body (Suc (Suc n)) outs log = repetitions body (Suc n) (outs @ [v]) l1"
      using b Inr by (subst repetitions.simps(2)) simp
    have R: "repetitions body (Suc n) outs log = repetitions body n (outs @ [v]) l1"
      using b Inr by (subst repetitions.simps(2)) simp
    show ?thesis unfolding L R by (rule Suc.IH)
  next
    case (Inl e)
    show ?thesis
    proof (cases "printable_Exception e")
      case True
      then have p: "is_Exception e" "str_raises e = None"
        by (simp_all add: printable_Exception_def)
      have L: "repetitions body (Suc (Suc n)) outs log =
                 repetitions body (Suc n) (outs @ [failure_marker e]) l1"
        using b Inl p by (subst repetitions.simps(2)) simp
      have R: "repetitions body (Suc n) outs log =
                 repetitions body n (outs @ [failure_marker e]) l1"
        using b Inl p by (subst repetitions.simps(2)) simp
      show ?thesis unfolding L R by (rule Suc.IH)
    next
      case False
      define e1 where "e1 = (if is_Exception e then the (str_raises e) else e)"
      have L: "repetitions body (Suc (Suc n)) outs log = (Inl e1, l1)"
        using b Inl False
        by (subst repetitions.simps(2)) (auto simp: printable_Exception_def e1_def)
      have R: "repetitions body (Suc n) outs log = (Inl e1, l1)"
        using b Inl False
        by (subst repetitions.simps(2)) (auto simp: printable_Exception_def e1_def)
      show ?thesis unfolding L R by simp
    qed
  qed
qed

lemma repetitions_always_failing:
  assumes "\<And>l. body l = (Inl e, l)" and "is_Exception e" and "str_raises e = None"
  shows "repetitions body n outs log = (Inr (outs @ replicate n (failure_marker e)), log)"
  using assms
  by (induction n arbitrary: outs) (simp_all add: replicate_app_Cons_same)

text \<open>
  Once a repetition raises an error that is not an \<^verbatim>\<open>Exception\<close>, the loop raises it,
  however many repetitions were to follow.
\<close>

lemma repetitions_propagates:
  assumes "repetitions body n outs log = (Inr os, l)"
    and "body l = (Inl e, l')" and "\<not> is_Exception e"
  shows "repetitions body (n + Suc k) outs log = (Inl e, l')"
  using assms
proof (induction n arbitrary: outs log)
  case 0
  then show ?case by simp
next
  case (Suc n)
  obtain x l1 where b: "body log = (x, l1)" by (cases "body log")
  show ?case
  proof (cases x)
    case (Inr v)
    with b Suc.prems(1) have "repetitions body n (outs @ [v]) l1 = (Inr os, l)" by simp
    from Suc.IH [OF this Suc.prems(2,3)] b Inr show ?thesis by simp
  next
    case (Inl e0)
    with b Suc.prems(1) have p: "is_Exception e0" "str_raises e0 = None"
      and "repetitions body n (outs @ [failure_marker e0]) l1 = (Inr os, l)"
      by (auto split: if_splits option.splits)
    from Suc.IH [OF this(3) Suc.prems(2,3)] b Inl p show ?thesis by simp
  qed
qed

lemma try_body_Exception:
  assumes "only_printable_Exceptions en" and "try_body en m ex tr t l = (Inl e, l')"
  shows "is_Exception e \<and> str_raises e = None"
  using assms
  by (auto simp: only_printable_Exceptions_def printable_Exception_def try_body_def
             run_chain_def run_llm_def arun_llm_def Let_def
           split: target.splits mode.splits llm_kind.splits option.splits sum.splits)

lemma llm_or_chain_Suc:
  assumes "llm_or_chain en m ex tr t (int n) log = (Inr os, tr1, l)"
  shows "llm_or_chain en m ex tr t (int (Suc n)) log =
           (case try_body en m ex (tr\<lparr>example_id := Some (ex_id ex)\<rparr>) t l of
              (Inr v, l') \<Rightarrow> (Inr (os @ [v]), tr, l')
            | (Inl e, l') \<Rightarrow>
                (if is_Exception e then
                   (case str_raises e of
                      Some e' \<Rightarrow> (Inl e', tr\<lparr>example_id := Some (ex_id ex)\<rparr>, l')
                    | None \<Rightarrow> (Inr (os @ [failure_marker e]), tr, l'))
                 else (Inl e, tr\<lparr>example_id := Some (ex_id ex)\<rparr>, l')))"
proof -
  let ?body = "try_body en m ex (tr\<lparr>example_id := Some (ex_id ex)\<rparr>) t"
  from assms have r: "repetitions ?body n [] log = (Inr os, l)"
    by (auto simp: llm_or_chain_def Let_def split: prod.splits sum.splits)
  have "nat (int (Suc n)) = Suc n" by simp
  then show ?thesis
    unfolding llm_or_chain_def Let_def
    by (simp only: repetitions_snoc r) (auto split: prod.splits sum.splits option.splits)
qed

lemma llm_or_chain_propagates:
  assumes "i < nat r"
    and "llm_or_chain en m ex tr t (int i) log = (Inr outs_i, tr_i, log_i)"
    and "try_body en m ex (tr\<lparr>example_id := Some (ex_id ex)\<rparr>) t log_i = (Inl e, l')"
    and "\<not> is_Exception e"
  shows "llm_or_chain en m ex tr t r log = (Inl e, tr\<lparr>example_id := Some (ex_id ex)\<rparr>, l')"
proof -
  let ?body = "try_body en m ex (tr\<lparr>example_id := Some (ex_id ex)\<rparr>) t"
  from assms(2) have "repetitions ?body i [] log = (Inr outs_i, log_i)"
    by (auto simp: llm_or_chain_def Let_def split: prod.splits sum.splits)
  from repetitions_propagates [OF this assms(3,4), of "nat r - Suc i"] assms(1)
  have "repetitions ?body (nat r) [] log = (Inl e, l')" by simp
  then show ?thesis by (simp add: llm_or_chain_def)
qed

lemma only_printable_Exceptions_flaky: "only_printable_Exceptions env_flaky"
  by (simp add: only_printable_Exceptions_def printable_Exception_def env_flaky_def env_ok_def)

lemma flaky_run:
  "llm_or_chain env_flaky Sync exA tracer0 ChainFactory 3 [] =
     (Inr [PStr ''ok'', PDict [(''Error'', PStr ''boom'')], PStr ''ok''],
      tracer0,
      [CallFactory, CallChainRun 0 Sync [(''prompt'', PStr ''a'')] (Some ''A''),
       CallFactory, CallChainRun 2 Sync [(''prompt'', PStr ''a'')] (Some ''A''),
       CallFactory, CallChainRun 4 Sync [(''prompt'', PStr ''a'')] (Some ''A'')])"
  by (simp add: runner_defs input_defs eval_nat_numeral)

text \<open>
  C3, as the code has it. Both evaluators (\<open>m\<close> is the mode) catch with
  \<^verbatim>\<open>except Exception\<close> and take \<^verbatim>\<open>str(e)\<close> of what they caught. When every error of
  the target is an \<^verbatim>\<open>Exception\<close> whose \<^verbatim>\<open>str(e)\<close> returns, and \<open>r \<ge> 0\<close>, the
  evaluator returns a sequence of exactly \<open>r\<close> slots; slot \<open>i\<close> is what repetition \<open>i\<close>
  gave, run after the first \<open>i\<close> repetitions whatever their outcome: the payload of the
  target, or the failure marker with the text of the error. And for every target: when
  repetition \<open>i\<close>, reached after \<open>i\<close> recorded repetitions, raises an error that is not
  an \<^verbatim>\<open>Exception\<close>, the evaluator raises that error at once, the tracer still tagged
  with the example.
\<close>

theorem evaluator_contains_Exceptions:
  "(only_printable_Exceptions en \<longrightarrow> 0 \<le> r \<longrightarrow>
      (\<exists>outs log'.
           llm_or_chain en m ex tr t r log = (Inr outs, tr, log') \<and> int (length outs) = r
         \<and> (\<forall>i<nat r. \<exists>log_i.
                llm_or_chain en m ex tr t (int i) log = (Inr (take i outs), tr, log_i)
              \<and> outs ! i =
                  (case fst (try_body en m ex (tr\<lparr>example_id := Some (ex_id ex)\<rparr>) t log_i) of
                     Inr v \<Rightarrow> v
                   | Inl e \<Rightarrow> failure_marker e))))
   \<and> (\<forall>i outs_i tr_i log_i e l'.
         i < nat r \<longrightarrow>
         llm_or_chain en m ex tr t (int i) log = (Inr outs_i, tr_i, log_i) \<longrightarrow>
         try_body en m ex (tr\<lparr>example_id := Some (ex_id ex)\<rparr>) t log_i = (Inl e, l') \<longrightarrow>
         \<not> is_Exception e \<longrightarrow>
         llm_or_chain en m ex tr t r log = (Inl e, tr\<lparr>example_id := Some (ex_id ex)\<rparr>, l'))"
proof (intro conjI impI allI)
  assume hyp: "only_printable_Exceptions en" and r0: "0 \<le> r"
  let ?body = "try_body en m ex (tr\<lparr>example_id := Some (ex_id ex)\<rparr>) t"
  have key: "\<exists>outs log'.
           llm_or_chain en m ex tr t (int n) log = (Inr outs, tr, log') \<and> length outs = n
         \<and> (\<forall>i<n. \<exists>log_i.
                llm_or_chain en m ex tr t (int i) log = (Inr (take i outs), tr, log_i)
              \<and> outs ! i = (case fst (?body log_i) of Inr v \<Rightarrow> v | Inl e \<Rightarrow> failure_marker e))" for n
  proof (induction n)
    case 0
    show ?case by (simp add: llm_or_chain_def)
  next
    case (Suc n)
    then obtain outs l where
      a: "llm_or_chain en m ex tr t (int n) log = (Inr outs, tr, l)" and
      b: "length outs = n" and
      c: "\<forall>i<n. \<exists>log_i.
                llm_or_chain en m ex tr t (int i) log = (Inr (take i outs), tr, log_i)
              \<and> outs ! i = (case fst (?body log_i) of Inr v \<Rightarrow> v | Inl e \<Rightarrow> failure_marker e)"
      by blast
    obtain x l' where d: "?body l = (x, l')" by (cases "?body l")
    define v where "v = (case x of Inr v \<Rightarrow> v | Inl e \<Rightarrow> failure_marker e)"
    have e: "llm_or_chain en m ex tr t (int (Suc n)) log = (Inr (outs @ [v]), tr, l')"
    proof (cases x)
      case (Inr w)
      with d show ?thesis by (simp add: llm_or_chain_Suc [OF a] v_def del: of_nat_Suc)
    next
      case (Inl ex1)
      with d hyp have "is_Exception ex1 \<and> str_raises ex1 = None"
        by (auto dest: try_body_Exception)
      with d Inl show ?thesis by (simp add: llm_or_chain_Suc [OF a] v_def del: of_nat_Suc)
    qed
    have f: "\<exists>log_i. llm_or_chain en m ex tr t (int i) log = (Inr (take i (outs @ [v])), tr, log_i)
              \<and> (outs @ [v]) ! i = (case fst (?body log_i) of Inr v \<Rightarrow> v | Inl e \<Rightarrow> failure_marker e)"
      if "i < Suc n" for i
    proof (cases "i < n")
      case True
      with c b show ?thesis by (simp add: nth_append)
    next
      case False
      with that have "i = n" by simp
      with a b d show ?thesis by (auto simp: v_def nth_append)
    qed
    from e b f show ?case by auto
  qed
  from key [of "nat r"] r0 obtain outs log' where
    1: "llm_or_chain en m ex tr t r log = (Inr outs, tr, log')" and
    2: "length outs = nat r" and
    3: "\<forall>i<nat r. \<exists>log_i.
                llm_or_chain en m ex tr t (int i) log = (Inr (take i outs), tr, log_i)
              \<and> outs ! i = (case fst (?body log_i) of Inr v \<Rightarrow> v | Inl e \<Rightarrow> failure_marker e)"
    by auto
  from 2 r0 have "int (length outs) = r" by simp
  with 1 3 show "\<exists>outs log'.
           llm_or_chain en m ex tr t r log = (Inr outs, tr, log') \<and> int (length outs) = r
         \<and> (\<forall>i<nat r. \<exists>log_i.
                llm_or_chain en m ex tr t (int i) log = (Inr (take i outs), tr, log_i)
              \<and> outs ! i = (case fst (?body log_i) of Inr v \<Rightarrow> v | Inl e \<Rightarrow> failure_marker e))"
    by blast
next
  fix i outs_i tr_i log_i e l'
  assume "i < nat r"
    and "llm_or_chain en m ex tr t (int i) log = (Inr outs_i, tr_i, log_i)"
    and "try_body en m ex (tr\<lparr>example_id := Some (ex_id ex)\<rparr>) t log_i = (Inl e, l')"
    and "\<not> is_Exception e"
  then show "llm_or_chain en m ex tr t r log = (Inl e, tr\<lparr>example_id := Some (ex_id ex)\<rparr>, l')"
    by (rule llm_or_chain_propagates)
qed

theorem evaluator_contains_Exceptions_witness:
  "only_printable_Exceptions env_flaky \<and> (0::int) \<le> 3
   \<and> (\<exists>outs log'. run_llm_or_chain env_flaky exA tracer0 ChainFactory 3 [] = (Inr outs, tracer0, log')
        \<and> int (length outs) = 3)
   \<and> \<not> is_Exception (NonException ''KeyboardInterrupt'')
   \<and> arun_llm_or_chain env_interrupt exB tracer0 ChainFactory 2 [] =
       (Inl (NonException ''KeyboardInterrupt''),
        tracer0\<lparr>example_id := Some (ex_id exB)\<rparr>,
        [CallFactory, CallChainRun 0 Async [(''prompt'', PStr ''b'')] (Some ''B'')])"
proof -
  have a: "(0::nat) < nat 2" by simp
  have b: "llm_or_chain env_interrupt Async exB tracer0 ChainFactory (int 0) [] =
             (Inr [], tracer0, [])"
    by (simp add: llm_or_chain_def)
  have c: "try_body env_interrupt Async exB (tracer0\<lparr>example_id := Some (ex_id exB)\<rparr>)
             ChainFactory [] =
           (Inl (NonException ''KeyboardInterrupt''),
            [CallFactory, CallChainRun 0 Async [(''prompt'', PStr ''b'')] (Some ''B'')])"
    by (simp add: try_body_def run_chain_def input_defs)
  have d: "\<not> is_Exception (NonException ''KeyboardInterrupt'')" by simp
  note t1 = evaluator_contains_Exceptions [of env_flaky 3 Sync exA tracer0 ChainFactory "[]"]
  note t2 = evaluator_contains_Exceptions [of env_interrupt 2 Async exB tracer0 ChainFactory "[]"]
  from t1 only_printable_Exceptions_flaky
  have 1: "\<exists>outs log'. run_llm_or_chain env_flaky exA tracer0 ChainFactory 3 [] = (Inr outs, tracer0, log')
        \<and> int (length outs) = 3"
    by (auto simp: run_llm_or_chain_def)
  from t2 a b c d
  have 2: "arun_llm_or_chain env_interrupt exB tracer0 ChainFactory 2 [] =
       (Inl (NonException ''KeyboardInterrupt''),
        tracer0\<lparr>example_id := Some (ex_id exB)\<rparr>,
        [CallFactory, CallChainRun 0 Async [(''prompt'', PStr ''b'')] (Some ''B'')])"
    unfolding arun_llm_or_chain_def by blast
  from 1 2 only_printable_Exceptions_flaky show ?thesis by simp
qed

text \<open>
  C3 as stated fails: a chain whose run raises \<^verbatim>\<open>KeyboardInterrupt\<close>, which is not an
  \<^verbatim>\<open>Exception\<close>, makes \<^verbatim>\<open>run_llm_or_chain\<close> raise in the first of two repetitions,
  leaving the tracer tagged with the example; and so does a chain whose run raises an
  \<^verbatim>\<open>Exception\<close> whose \<^verbatim>\<open>__str__\<close> raises, from inside the handler.
\<close>

theorem evaluator_propagates_interrupt:
  "run_llm_or_chain env_interrupt exA tracer0 ChainFactory 2 [] =
     (Inl (NonException ''KeyboardInterrupt''),
      \<lparr>session_name = ''s'', example_id = Some ''A''\<rparr>,
      [CallFactory, CallChainRun 0 Sync [(''prompt'', PStr ''a'')] (Some ''A'')])
   \<and> run_llm_or_chain env_unprintable exA tracer0 ChainFactory 2 [] =
     (Inl (OtherException ''__str__ failed''),
      \<lparr>session_name = ''s'', example_id = Some ''A''\<rparr>,
      [CallFactory, CallChainRun 0 Sync [(''prompt'', PStr ''a'')] (Some ''A'')])"
  by (simp add: runner_defs input_defs numeral_2_eq_2)

text \<open>
  C7. When an evaluator returns, in either mode, the tracer's example tag (indeed the
  whole tracer) is what it was before the call, whatever the repetitions did.
\<close>

theorem evaluator_restores_tag:
  assumes "llm_or_chain en m ex tr t r log = (Inr outs, tr', log')"
  shows "example_id tr' = example_id tr \<and> tr' = tr"
  using assms by (auto simp: llm_or_chain_def Let_def split: prod.splits sum.splits)

theorem evaluator_restores_tag_witness:
  "fst (snd (run_llm_or_chain env_flaky exA tracer0 ChainFactory 3 [])) = tracer0
   \<and> example_id (fst (snd (run_llm_or_chain env_flaky exA tracer0 ChainFactory 3 []))) = Some ''outer''"
  using evaluator_restores_tag [OF flaky_run] flaky_run
  by (simp add: run_llm_or_chain_def tracer0_def)

subsection \<open>Factory targets\<close>

lemma run_instances_append:
  "run_instances (xs @ ys) = run_instances xs @ run_instances ys"
  by (induction xs rule: run_instances.induct) simp_all

lemma run_chain_log:
  "snd (run_chain en m inps tr log) = log @ chain_block en m inps (example_id tr) log"
  by (simp add: run_chain_def chain_block_def Let_def split: sum.splits)

lemma run_instances_chain_block:
  "set (run_instances (chain_block en m inps tag log)) \<subseteq> {length log}"
  by (simp add: chain_block_def split: sum.splits)

lemma distinct_run_instances_chain_block:
  "distinct (run_instances (chain_block en m inps tag log))"
  by (simp add: chain_block_def split: sum.splits)

lemma length_chain_block: "0 < length (chain_block en m inps tag log)"
  by (simp add: chain_block_def split: sum.splits)

lemma chain_repetitions_blocks:
  assumes "repetitions (run_chain en m inps tr) n [] log = (Inr outs, log')"
  shows "\<exists>blocks. log' = log @ concat blocks \<and> length blocks = n
           \<and> (\<forall>i<n. blocks ! i = chain_block en m inps (example_id tr) (log @ concat (take i blocks)))
           \<and> distinct (run_instances (concat blocks))
           \<and> (\<forall>k\<in>set (run_instances (concat blocks)). length log \<le> k \<and> k < length log')"
  using assms
proof (induction n arbitrary: outs log')
  case 0
  then show ?case by simp
next
  case (Suc n)
  let ?body = "run_chain en m inps tr"
  let ?blk = "chain_block en m inps (example_id tr)"
  obtain res0 l where r0: "repetitions ?body n [] log = (res0, l)"
    by (cases "repetitions ?body n [] log")
  have "\<exists>os. res0 = Inr os"
  proof (cases res0)
    case (Inl e)
    with Suc.prems r0 show ?thesis by (simp only: repetitions_snoc) simp
  next
    case (Inr os)
    then show ?thesis by simp
  qed
  with r0 obtain os where r: "repetitions ?body n [] log = (Inr os, l)" by auto
  from Suc.prems r have l': "log' = snd (?body l)"
    by (simp only: repetitions_snoc)
      (auto split: prod.splits sum.splits if_splits option.splits)
  from Suc.IH [OF r] obtain blocks where
    a: "l = log @ concat blocks" and b: "length blocks = n" and
    c: "\<forall>i<n. blocks ! i = ?blk (log @ concat (take i blocks))" and
    d: "distinct (run_instances (concat blocks))" and
    e: "\<forall>k\<in>set (run_instances (concat blocks)). length log \<le> k \<and> k < length l"
    by blast
  let ?B = "?blk l"
  let ?bs = "blocks @ [?B]"
  have 1: "log' = log @ concat ?bs" using l' a by (simp add: run_chain_log)
  have 2: "length ?bs = Suc n" using b by simp
  have 3: "?bs ! i = ?blk (log @ concat (take i ?bs))" if "i < Suc n" for i
  proof (cases "i < n")
    case True
    with b c show ?thesis by (simp add: nth_append)
  next
    case False
    with that have "i = n" by simp
    with a b show ?thesis by (simp add: nth_append)
  qed
  have len: "length l < length log'" using l' length_chain_block [of en m inps "example_id tr" l]
    by (simp add: run_chain_log)
  have 4: "distinct (run_instances (concat ?bs))"
    using d e run_instances_chain_block [of en m inps "example_id tr" l]
      distinct_run_instances_chain_block [of en m inps "example_id tr" l]
    by (auto simp: run_instances_append)
  have 5: "\<forall>k\<in>set (run_instances (concat ?bs)). length log \<le> k \<and> k < length log'"
    using e len a run_instances_chain_block [of en m inps "example_id tr" l]
    by (auto simp: run_instances_append)
  from 1 2 3 4 5 show ?case by blast
qed

text \<open>
  C8. On a factory target an evaluator that returns after \<open>r\<close> repetitions has added
  \<open>r\<close> blocks to the log, one for each repetition: the call of the factory followed, when
  the factory built a chain, by one run of that very chain on the example's inputs under
  the example's tag. No chain is run twice, and every chain run was built during this
  call, so none is shared between repetitions or with another example.
\<close>

theorem factory_fresh_instance_per_repetition:
  assumes "llm_or_chain en m ex tr ChainFactory r log = (Inr outs, tr', log')"
  shows "\<exists>blocks.
           log' = log @ concat blocks \<and> length blocks = nat r
         \<and> (\<forall>i<nat r. blocks ! i =
               (let log_i = log @ concat (take i blocks) in
                case factory en log_i of
                  Inl e \<Rightarrow> [CallFactory]
                | Inr cls \<Rightarrow>
                    [CallFactory, CallChainRun (length log_i) m (ex_inputs ex) (Some (ex_id ex))]))
         \<and> distinct (run_instances (concat blocks))
         \<and> (\<forall>chain\<in>set (run_instances (concat blocks)). length log \<le> chain \<and> chain < length log')"
proof -
  let ?tr = "tr\<lparr>example_id := Some (ex_id ex)\<rparr>"
  have body: "try_body en m ex ?tr ChainFactory = run_chain en m (ex_inputs ex) ?tr"
    by (rule ext) (simp add: try_body_def)
  from assms have "repetitions (run_chain en m (ex_inputs ex) ?tr) (nat r) [] log = (Inr outs, log')"
    by (auto simp: llm_or_chain_def Let_def body split: prod.splits sum.splits)
  from chain_repetitions_blocks [OF this] show ?thesis
    by (simp add: chain_block_def Let_def)
qed

theorem factory_fresh_instance_per_repetition_witness:
  "\<exists>blocks.
     [CallFactory, CallChainRun 0 Sync [(''prompt'', PStr ''a'')] (Some ''A''),
      CallFactory, CallChainRun 2 Sync [(''prompt'', PStr ''a'')] (Some ''A''),
      CallFactory, CallChainRun 4 Sync [(''prompt'', PStr ''a'')] (Some ''A'')] = concat blocks
     \<and> length blocks = 3 \<and> distinct (run_instances (concat blocks))"
  using factory_fresh_instance_per_repetition [OF flaky_run]
  by auto

subsection \<open>Language-model targets\<close>

text \<open>
  C9, as the code has it. The route is chosen by the class of the model, not by the
  payload: a \<^verbatim>\<open>BaseLLM\<close> with a \<^verbatim>\<open>prompt\<close> key gets a text completion, a
  \<^verbatim>\<open>BaseChatModel\<close> with a \<^verbatim>\<open>messages\<close> key that \<^verbatim>\<open>messages_from_dict\<close> accepts
  gets a chat call. A model that lacks the key of its class, or is of neither class,
  raises \<^verbatim>\<open>ValueError\<close> at once without any call; the evaluator then records the failure
  marker in every one of the \<open>r\<close> repetitions and returns.
\<close>

theorem llm_routes_by_model_kind:
  "(lm_kind llm = BaseLLM \<longrightarrow> map_of inps ''prompt'' = Some p \<longrightarrow>
        run_llm en llm inps tr log =
          (generate en log Sync p, log @ [CallGenerate Sync p (example_id tr)])
      \<and> arun_llm en llm inps tr log =
          (generate en log Async p, log @ [CallGenerate Async p (example_id tr)]))
   \<and> (lm_kind llm = BaseChatModel \<longrightarrow> map_of inps ''messages'' = Some raw \<longrightarrow>
        messages_from_dict en raw = Inr ms \<longrightarrow>
        run_llm en llm inps tr log =
          (chat_generate en log Sync ms, log @ [CallChatGenerate Sync ms (example_id tr)])
      \<and> arun_llm en llm inps tr log =
          (chat_generate en log Async ms, log @ [CallChatGenerate Async ms (example_id tr)]))
   \<and> (lm_kind llm = BaseLLM \<and> map_of inps ''prompt'' = None
        \<or> lm_kind llm = BaseChatModel \<and> map_of inps ''messages'' = None
        \<or> lm_kind llm = OtherLanguageModel \<longrightarrow>
        (\<exists>msg. run_llm en llm inps tr log = (Inl (ValueError msg), log))
      \<and> (\<exists>msg. arun_llm en llm inps tr log = (Inl (ValueError msg), log))
      \<and> (\<exists>msg. llm_or_chain en m \<lparr>ex_id = i, ex_inputs = inps\<rparr> tr (LanguageModel llm) r log =
             (Inr (replicate (nat r) (failure_marker (ValueError msg))), tr, log)))"
proof (intro conjI impI)
  assume "lm_kind llm = BaseLLM" "map_of inps ''prompt'' = Some p"
  then show "run_llm en llm inps tr log =
          (generate en log Sync p, log @ [CallGenerate Sync p (example_id tr)])"
    and "arun_llm en llm inps tr log =
          (generate en log Async p, log @ [CallGenerate Async p (example_id tr)])"
    by (simp_all add: run_llm_def arun_llm_def)
next
  assume "lm_kind llm = BaseChatModel" "map_of inps ''messages'' = Some raw"
    "messages_from_dict en raw = Inr ms"
  then show "run_llm en llm inps tr log =
          (chat_generate en log Sync ms, log @ [CallChatGenerate Sync ms (example_id tr)])"
    and "arun_llm en llm inps tr log =
          (chat_generate en log Async ms, log @ [CallChatGenerate Async ms (example_id tr)])"
    by (simp_all add: run_llm_def arun_llm_def)
next
  assume mis: "lm_kind llm = BaseLLM \<and> map_of inps ''prompt'' = None
        \<or> lm_kind llm = BaseChatModel \<and> map_of inps ''messages'' = None
        \<or> lm_kind llm = OtherLanguageModel"
  then have s: "\<exists>msg. \<forall>t l. run_llm en llm inps t l = (Inl (ValueError msg), l)"
    by (auto simp: run_llm_def)
  from mis have a: "\<exists>msg. \<forall>t l. arun_llm en llm inps t l = (Inl (ValueError msg), l)"
    by (auto simp: arun_llm_def)
  from s show "\<exists>msg. run_llm en llm inps tr log = (Inl (ValueError msg), log)" by blast
  from a show "\<exists>msg. arun_llm en llm inps tr log = (Inl (ValueError msg), log)" by blast
  let ?ex = "\<lparr>ex_id = i, ex_inputs = inps\<rparr>"
  let ?tr = "tr\<lparr>example_id := Some i\<rparr>"
  have "\<exists>msg. \<forall>l. try_body en m ?ex ?tr (LanguageModel llm) l = (Inl (ValueError msg), l)"
  proof (cases m)
    case Sync
    from s obtain msg where "\<And>t l. run_llm en llm inps t l = (Inl (ValueError msg), l)"
      by blast
    with Sync show ?thesis by (simp add: try_body_def)
  next
    case Async
    from a obtain msg where "\<And>t l. arun_llm en llm inps t l = (Inl (ValueError msg), l)"
      by blast
    with Async show ?thesis by (simp add: try_body_def)
  qed
  then obtain msg where
    b: "\<And>l. try_body en m ?ex ?tr (LanguageModel llm) l = (Inl (ValueError msg), l)"
    by blast
  have "repetitions (try_body en m ?ex ?tr (LanguageModel llm)) (nat r) [] log =
          (Inr ([] @ replicate (nat r) (failure_marker (ValueError msg))), log)"
    by (rule repetitions_always_failing) (simp_all add: b)
  then have "llm_or_chain en m ?ex tr (LanguageModel llm) r log =
             (Inr (replicate (nat r) (failure_marker (ValueError msg))), tr, log)"
    by (simp add: llm_or_chain_def)
  then show "\<exists>msg. llm_or_chain en m ?ex tr (LanguageModel llm) r log =
             (Inr (replicate (nat r) (failure_marker (ValueError msg))), tr, log)"
    by blast
qed

theorem llm_routes_by_model_kind_witness:
  "run_llm env_ok llm_text [(''prompt'', PStr ''a'')] tracer0 [] =
     (Inr (PStr ''ok''), [CallGenerate Sync (PStr ''a'') (Some ''outer'')])
   \<and> arun_llm env_ok llm_chat [(''messages'', PList [])] tracer0 [] =
     (Inr (PStr ''ok''), [CallChatGenerate Async (PList []) (Some ''outer'')])
   \<and> (\<exists>msg. llm_or_chain env_ok Sync \<lparr>ex_id = ''A'', ex_inputs = [(''prompt'', PStr ''a'')]\<rparr>
               tracer0 (LanguageModel llm_chat) 2 [] =
             (Inr [failure_marker (ValueError msg), failure_marker (ValueError msg)], tracer0, []))"
proof -
  have k1: "lm_kind llm_text = BaseLLM" and k2: "lm_kind llm_chat = BaseChatModel"
    by (simp_all add: llm_text_def llm_chat_def)
  have p1: "map_of [(''prompt'', PStr ''a'')] ''prompt'' = Some (PStr ''a'')" by simp
  have p2: "map_of [(''messages'', PList [])] ''messages'' = Some (PList [])" by simp
  have p3: "messages_from_dict env_ok (PList []) = Inr (PList [])" by (simp add: env_ok_def)
  have p4: "map_of [(''prompt'', PStr ''a'')] ''messages'' = None" by simp
  have g: "generate env_ok [] Sync (PStr ''a'') = Inr (PStr ''ok'')"
    "chat_generate env_ok [] Async (PList []) = Inr (PStr ''ok'')"
    "example_id tracer0 = Some ''outer''"
    by (simp_all add: env_ok_def tracer0_def)
  have r: "replicate 2 x = [x, x]" for x :: pyval
    by (simp add: numeral_2_eq_2)
  show ?thesis
    using llm_routes_by_model_kind [of llm_text "[(''prompt'', PStr ''a'')]" "PStr ''a''" env_ok
        tracer0 "[]" "PList []" "PList []" Sync "''A''" 2]
      llm_routes_by_model_kind [of llm_chat "[(''messages'', PList [])]" "PStr ''a''" env_ok
        tracer0 "[]" "PList []" "PList []" Sync "''A''" 2]
      llm_routes_by_model_kind [of llm_chat "[(''prompt'', PStr ''a'')]" "PStr ''a''" env_ok
        tracer0 "[]" "PList []" "PList []" Sync "''A''" 2]
      k1 k2 p1 p2 p3 p4
    by (simp add: g r)
qed

text \<open>
  C9 as stated fails: a payload with the single text field \<^verbatim>\<open>prompt\<close> given to a chat
  model is not sent to a text completion, and a payload with \<^verbatim>\<open>messages\<close> given to a
  \<^verbatim>\<open>BaseLLM\<close> is not sent to a chat call; both raise \<^verbatim>\<open>ValueError\<close> without a call.
\<close>

theorem payload_kind_does_not_route:
  "run_llm env_ok llm_chat [(''prompt'', PStr ''a'')] tracer0 [] =
     (Inl (ValueError ''Chat Model Run must contain 'messages' key. Got {...}''), [])
   \<and> run_llm env_ok llm_text [(''messages'', PList [])] tracer0 [] =
     (Inl (ValueError ''LLM Run must contain 'prompt' key. Got {...}''), [])"
  by (simp add: run_llm_def input_defs)

subsection \<open>The gate and the pool\<close>

lemmas gather_defs =
  arun_on_dataset_def gather_with_concurrency_def gather_start_def gather_result_def
  step_def tracer_initializer_def process_example_def

lemma sum_list_map_update:
  fixes f :: "'a \<Rightarrow> 'b::comm_monoid_add"
  shows "i < length xs \<Longrightarrow>
    sum_list (map f (xs[i := y])) + f (xs ! i) = sum_list (map f xs) + f y"
proof (induction xs arbitrary: i)
  case Nil
  then show ?case by simp
next
  case (Cons x xs)
  show ?case
  proof (cases i)
    case 0
    then show ?thesis by (simp add: ac_simps)
  next
    case (Suc j)
    with Cons.prems have "j < length xs" by simp
    from Cons.IH [OF this] Suc show ?thesis by (simp add: ac_simps)
  qed
qed

lemma mset_held: "mset (held ts) = sum_list (map (\<lambda>u. mset (holds u)) ts)"
  by (induction ts) (simp_all add: held_def)

lemma count_in_gate:
  "length (filter in_gate ts) = sum_list (map (\<lambda>u. if in_gate u then 1 else 0) ts)"
  by (induction ts) simp_all

lemma length_held: "length (held ts) = length (filter is_Running ts)"
proof (induction ts)
  case Nil
  show ?case by (simp add: held_def)
next
  case (Cons u ts)
  then show ?case by (cases u) (simp_all add: held_def)
qed

lemma mset_held_update:
  "i < length ts \<Longrightarrow>
     mset (held (ts[i := y])) + mset (holds (ts ! i)) = mset (held ts) + mset (holds y)"
  unfolding mset_held by (rule sum_list_map_update)

lemma in_gate_update:
  "i < length ts \<Longrightarrow>
     length (filter in_gate (ts[i := y])) + (if in_gate (ts ! i) then 1 else 0) =
     length (filter in_gate ts) + (if in_gate y then 1 else 0)"
  unfolding count_in_gate by (rule sum_list_map_update)

lemma todo_update:
  "i < length ts \<Longrightarrow>
     sum_list (map todo (ts[i := y])) + todo (ts ! i) = sum_list (map todo ts) + todo y"
  by (rule sum_list_map_update)

text \<open>What every move keeps.\<close>

lemma step_keeps:
  assumes "step fs i st = Some st'"
  shows "mset (tracer_queue st') + mset (held (tasks st')) =
           mset (tracer_queue st) + mset (held (tasks st))"
    and "semaphore st' + length (filter in_gate (tasks st')) =
           semaphore st + length (filter in_gate (tasks st))"
    and "length (tasks st') = length (tasks st)"
    and "Suc (sum_list (map todo (tasks st'))) = sum_list (map todo (tasks st))"
proof -
  from assms have i: "i < length (tasks st)"
    by (auto simp: step_def split: if_splits)
  note h = mset_held_update [OF i] and g = in_gate_update [OF i] and t = todo_update [OF i]
  show "mset (tracer_queue st') + mset (held (tasks st')) =
           mset (tracer_queue st) + mset (held (tasks st))"
  proof (cases "tasks st ! i")
    case Waiting
    with assms h [of Admitted] show ?thesis by (auto simp: step_def split: if_splits)
  next
    case Admitted
    with assms h [of "Running (hd (tracer_queue st))"] show ?thesis
      by (auto simp: step_def split: if_splits list.splits)
  next
    case (Running a)
    with assms h [of "CheckedIn (fst ((fs ! i) a (shared_state st)))"] show ?thesis
      by (auto simp: step_def split: if_splits prod.splits)
  next
    case (CheckedIn r)
    with assms h [of "Done r"] show ?thesis by (auto simp: step_def split: if_splits)
  next
    case (Done r)
    with assms show ?thesis by (auto simp: step_def split: if_splits)
  qed
  show "semaphore st' + length (filter in_gate (tasks st')) =
           semaphore st + length (filter in_gate (tasks st))"
  proof (cases "tasks st ! i")
    case Waiting
    with assms g [of Admitted] show ?thesis by (auto simp: step_def split: if_splits)
  next
    case Admitted
    with assms g [of "Running (hd (tracer_queue st))"] show ?thesis
      by (auto simp: step_def split: if_splits list.splits)
  next
    case (Running a)
    with assms g [of "CheckedIn (fst ((fs ! i) a (shared_state st)))"] show ?thesis
      by (auto simp: step_def split: if_splits prod.splits)
  next
    case (CheckedIn r)
    with assms g [of "Done r"] show ?thesis by (auto simp: step_def split: if_splits)
  next
    case (Done r)
    with assms show ?thesis by (auto simp: step_def split: if_splits)
  qed
  show "length (tasks st') = length (tasks st)"
    using assms
    by (auto simp: step_def split: if_splits ustate.splits list.splits prod.splits)
  show "Suc (sum_list (map todo (tasks st'))) = sum_list (map todo (tasks st))"
  proof (cases "tasks st ! i")
    case Waiting
    with assms t [of Admitted] show ?thesis by (auto simp: step_def split: if_splits)
  next
    case Admitted
    with assms t [of "Running (hd (tracer_queue st))"] show ?thesis
      by (auto simp: step_def split: if_splits list.splits)
  next
    case (Running a)
    with assms t [of "CheckedIn (fst ((fs ! i) a (shared_state st)))"] show ?thesis
      by (auto simp: step_def split: if_splits prod.splits)
  next
    case (CheckedIn r)
    with assms t [of "Done r"] show ?thesis by (auto simp: step_def split: if_splits)
  next
    case (Done r)
    with assms show ?thesis by (auto simp: step_def split: if_splits)
  qed
qed

lemma run_schedule_keeps:
  assumes "run_schedule fs sched st = Some st'"
  shows "mset (tracer_queue st') + mset (held (tasks st')) =
           mset (tracer_queue st) + mset (held (tasks st))
       \<and> semaphore st' + length (filter in_gate (tasks st')) =
           semaphore st + length (filter in_gate (tasks st))
       \<and> length (tasks st') = length (tasks st)"
  using assms
proof (induction sched arbitrary: st)
  case Nil
  then show ?case by simp
next
  case (Cons i sched)
  then obtain st1 where 1: "step fs i st = Some st1" and 2: "run_schedule fs sched st1 = Some st'"
    by (auto split: option.splits)
  from Cons.IH [OF 2] step_keeps(1-3) [OF 1] show ?case by simp
qed

lemma build_pool_length:
  "build_pool initializer k q s = (Inr q', s') \<Longrightarrow> length q' = length q + k"
  by (induction k arbitrary: q s) (auto split: prod.splits sum.splits)

lemma gather_start_state:
  assumes "gather_start n initializer fs s = (Inr st0, s')"
  shows "0 \<le> n" and "semaphore st0 = nat n" and "length (tracer_queue st0) = nat n"
    and "tasks st0 = replicate (length fs) Waiting" and "first_raised st0 = None"
  using assms
  by (auto simp: gather_start_def split: if_splits prod.splits sum.splits dest: build_pool_length)

lemma held_Waiting: "held (replicate k Waiting) = []"
  by (induction k) (simp_all add: held_def)

lemma in_gate_Waiting: "filter in_gate (replicate k Waiting) = []"
  by (induction k) simp_all

lemma reachable_counts:
  assumes "gather_start n initializer fs s = (Inr st0, s')"
    and "run_schedule fs sched st0 = Some st"
  shows "mset (tracer_queue st) + mset (held (tasks st)) = mset (tracer_queue st0)"
    and "semaphore st + length (filter in_gate (tasks st)) = nat n"
    and "length (tracer_queue st) + length (filter is_Running (tasks st)) = nat n"
    and "length (tasks st) = length fs"
proof -
  note k = run_schedule_keeps [OF assms(2)] and g = gather_start_state [OF assms(1)]
  show a: "mset (tracer_queue st) + mset (held (tasks st)) = mset (tracer_queue st0)"
    using k g by (simp add: held_Waiting)
  show "semaphore st + length (filter in_gate (tasks st)) = nat n"
    using k g by (simp add: in_gate_Waiting)
  from a have "size (mset (tracer_queue st) + mset (held (tasks st))) = size (mset (tracer_queue st0))"
    by simp
  then show "length (tracer_queue st) + length (filter is_Running (tasks st)) = nat n"
    using g by (simp add: length_held)
  show "length (tasks st) = length fs" using k g by simp
qed

lemma start3:
  "gather_start 2 (tracer_initializer env_interrupt ''s'') units3
     \<lparr>sh_calls = [], sh_tracers = [], sh_num_processed = 0, sh_results = []\<rparr> =
   (Inr st_start, pool_shared)"
  by (simp add: gather_start_def tracer_initializer_def units3_def st_start_def pool_shared_def
        input_defs eval_nat_numeral)

lemma two_running: "run_schedule units3 [0, 1, 0, 1] st_start = Some st_two_running"
  by (simp add: step_def units3_def st_start_def st_two_running_def)

lemma start3_empty: "run_schedule units3 [] st_start = Some st_start"
  by simp

text \<open>
  C2. After any interleaving of the coroutines of \<^verbatim>\<open>_gather_with_concurrency\<close> started
  with level \<open>n\<close>, at most \<open>n\<close> of them hold a tracer checked out of the queue, and at
  most \<open>n\<close> are inside \<^verbatim>\<open>async with semaphore\<close>. Every state the run passes through is
  the end of a shorter interleaving, so the bound holds at every instant.
\<close>

theorem at_most_n_hold_a_tracer:
  assumes "gather_start n initializer async_funcs s = (Inr st0, s')"
    and "run_schedule async_funcs sched st0 = Some st"
  shows "length (filter is_Running (tasks st)) \<le> nat n
       \<and> length (filter in_gate (tasks st)) \<le> nat n"
  using reachable_counts(2,3) [OF assms] by linarith

theorem at_most_n_hold_a_tracer_witness:
  "tasks st_two_running = [Running 0, Running 1, Waiting]
   \<and> length (filter is_Running (tasks st_two_running)) \<le> nat 2
   \<and> length (filter in_gate (tasks st_two_running)) \<le> nat 2"
  using at_most_n_hold_a_tracer [OF start3 two_running]
  by (simp add: st_two_running_def)

subsection \<open>Check-in and progress\<close>

lemma step_Running:
  assumes "i < length (tasks st)" and "tasks st ! i = Running a"
  shows "\<exists>st'. step fs i st = Some st' \<and> tracer_queue st' = tracer_queue st @ [a]
           \<and> tasks st' ! i = CheckedIn (fst ((fs ! i) a (shared_state st)))"
  using assms by (auto simp: step_def split: prod.splits)

lemma step_CheckedIn:
  assumes "i < length (tasks st)" and "tasks st ! i = CheckedIn r"
  shows "\<exists>st'. step fs i st = Some st'"
  using assms by (auto simp: step_def)

lemma filter_nonempty_nth:
  assumes "filter P xs \<noteq> []"
  shows "\<exists>i<length xs. P (xs ! i)"
proof -
  from assms obtain x where "x \<in> set xs" and "P x"
    by (metis filter_False)
  then show ?thesis by (auto simp: in_set_conv_nth)
qed

text \<open>
  With a positive concurrency level, some coroutine can move as long as one is unfinished.
\<close>

lemma some_unit_moves:
  assumes sem: "semaphore st + length (filter in_gate (tasks st)) = N"
    and pool: "length (tracer_queue st) + length (filter is_Running (tasks st)) = N"
    and pos: "0 < N"
    and unfinished: "\<not> list_all is_Done (tasks st)"
  shows "\<exists>i st'. step fs i st = Some st'"
proof -
  have running: "\<exists>i st'. step fs i st = Some st'" if "filter is_Running (tasks st) \<noteq> []"
  proof -
    from filter_nonempty_nth [OF that] obtain i where
      i: "i < length (tasks st)" and "is_Running (tasks st ! i)" by blast
    then obtain a where "tasks st ! i = Running a" by (cases "tasks st ! i") auto
    with step_Running [OF i, of a fs] show ?thesis by blast
  qed
  have gate: "\<exists>i st'. step fs i st = Some st'" if "filter in_gate (tasks st) \<noteq> []"
  proof -
    from filter_nonempty_nth [OF that] obtain i where
      i: "i < length (tasks st)" and g: "in_gate (tasks st ! i)" by blast
    show ?thesis
    proof (cases "tasks st ! i")
      case Admitted
      show ?thesis
      proof (cases "tracer_queue st")
        case Nil
        with pool pos have "filter is_Running (tasks st) \<noteq> []" by auto
        then show ?thesis by (rule running)
      next
        case (Cons a q)
        with i Admitted have "step fs i st \<noteq> None" by (simp add: step_def)
        then show ?thesis by auto
      qed
    next
      case (Running a)
      with step_Running [OF i, of a fs] show ?thesis by blast
    next
      case (CheckedIn r)
      with step_CheckedIn [OF i, of r fs] show ?thesis by blast
    next
      case Waiting
      with g show ?thesis by simp
    next
      case (Done r)
      with g show ?thesis by simp
    qed
  qed
  from unfinished obtain i where i: "i < length (tasks st)" and nd: "\<not> is_Done (tasks st ! i)"
    by (auto simp: list_all_length)
  show ?thesis
  proof (cases "filter in_gate (tasks st) = []")
    case False
    then show ?thesis by (rule gate)
  next
    case True
    with sem pos have s: "0 < semaphore st" by simp
    from True i have "\<not> in_gate (tasks st ! i)"
      by (metis filter_empty_conv nth_mem)
    with nd have "tasks st ! i = Waiting" by (cases "tasks st ! i") auto
    with i s have "step fs i st \<noteq> None" by (simp add: step_def)
    then show ?thesis by auto
  qed
qed

lemma every_unit_can_finish:
  assumes "semaphore st + length (filter in_gate (tasks st)) = N"
    and "length (tracer_queue st) + length (filter is_Running (tasks st)) = N"
    and "0 < N"
  shows "\<exists>sched st'. run_schedule fs sched st = Some st' \<and> list_all is_Done (tasks st')"
  using assms
proof (induction "sum_list (map todo (tasks st))" arbitrary: st rule: less_induct)
  case less
  show ?case
  proof (cases "list_all is_Done (tasks st)")
    case True
    have "run_schedule fs [] st = Some st" by simp
    with True show ?thesis by blast
  next
    case False
    from some_unit_moves [OF less.prems False] obtain i st1 where
      1: "step fs i st = Some st1" by blast
    note k = step_keeps [OF 1]
    have q: "length (tracer_queue st1) + length (filter is_Running (tasks st1)) = N"
    proof -
      from k(1) have "size (mset (tracer_queue st1) + mset (held (tasks st1))) =
                      size (mset (tracer_queue st) + mset (held (tasks st)))" by simp
      with less.prems(2) show ?thesis by (simp add: length_held)
    qed
    from k(4) have "sum_list (map todo (tasks st1)) < sum_list (map todo (tasks st))" by simp
    from less.hyps [OF this _ q less.prems(3)] k(2) less.prems(1)
    obtain sched st' where
      "run_schedule fs sched st1 = Some st'" and d: "list_all is_Done (tasks st')" by auto
    with 1 have "run_schedule fs (i # sched) st = Some st'" by simp
    with d show ?thesis by blast
  qed
qed

text \<open>
  C4. In any state a concurrent run reaches: a coroutine that holds a tracer puts that
  tracer back at the end of the queue in its next move, whatever \<^verbatim>\<open>async_func\<close> gave,
  a result or an exception (the \<^verbatim>\<open>finally\<close> of line 473); the queue together with the
  tracers held is the pool that was built; when no coroutine holds a tracer the queue has
  all \<open>n\<close> again; and with \<open>n > 0\<close> the run can always be continued until every
  coroutine has finished, so none is starved.
\<close>

theorem tracer_checked_in_on_every_path:
  assumes "gather_start n initializer async_funcs s = (Inr st0, s')"
    and "run_schedule async_funcs sched st0 = Some st"
  shows "(\<forall>i a. i < length (tasks st) \<and> tasks st ! i = Running a \<longrightarrow>
            (\<exists>st'. step async_funcs i st = Some st'
                 \<and> tracer_queue st' = tracer_queue st @ [a]
                 \<and> tasks st' ! i = CheckedIn (fst ((async_funcs ! i) a (shared_state st)))))
       \<and> mset (tracer_queue st @ held (tasks st)) = mset (tracer_queue st0)
       \<and> (held (tasks st) = [] \<longrightarrow> length (tracer_queue st) = nat n)
       \<and> (0 < n \<longrightarrow>
            (\<exists>sched' st'. run_schedule async_funcs sched' st = Some st'
                 \<and> list_all is_Done (tasks st')))"
proof (intro conjI impI allI)
  note c = reachable_counts [OF assms]
  fix i a
  assume "i < length (tasks st) \<and> tasks st ! i = Running a"
  then show "\<exists>st'. step async_funcs i st = Some st'
                 \<and> tracer_queue st' = tracer_queue st @ [a]
                 \<and> tasks st' ! i = CheckedIn (fst ((async_funcs ! i) a (shared_state st)))"
    using step_Running by blast
next
  note c = reachable_counts [OF assms]
  show "mset (tracer_queue st @ held (tasks st)) = mset (tracer_queue st0)"
    using c(1) by simp
next
  note c = reachable_counts [OF assms]
  assume "held (tasks st) = []"
  then have "length (filter is_Running (tasks st)) = 0"
    by (simp add: length_held [symmetric])
  with c(3) show "length (tracer_queue st) = nat n" by simp
next
  note c = reachable_counts [OF assms]
  assume "0 < n"
  then have "0 < nat n" by simp
  from every_unit_can_finish [OF c(2) c(3) this]
  show "\<exists>sched' st'. run_schedule async_funcs sched' st = Some st'
                 \<and> list_all is_Done (tasks st')" .
qed

theorem tracer_checked_in_on_every_path_witness:
  "(\<exists>st'. step units3 0 st_two_running = Some st' \<and> tracer_queue st' = [0]
        \<and> tasks st' ! 0 = CheckedIn (Inl (NonException ''KeyboardInterrupt'')))
   \<and> mset (tracer_queue st_two_running @ held (tasks st_two_running)) = mset [0, 1]
   \<and> held (tasks st_start) = [] \<and> length (tracer_queue st_start) = nat 2
   \<and> (\<exists>sched' st'. run_schedule units3 sched' st_two_running = Some st'
         \<and> list_all is_Done (tasks st'))"
proof -
  have r: "0 < length (tasks st_two_running) \<and> tasks st_two_running ! 0 = Running 0"
    by (simp add: st_two_running_def)
  have f: "fst ((units3 ! 0) 0 (shared_state st_two_running)) =
             Inl (NonException ''KeyboardInterrupt'')"
    by (simp add: units3_def st_two_running_def pool_shared_def process_example_def
          runner_defs input_defs)
  have q: "tracer_queue st_two_running = []" "tracer_queue st_start = [0, 1]"
    "held (tasks st_start) = []"
    by (simp_all add: st_two_running_def st_start_def held_def)
  have p: "(0::int) < 2" by simp
  note a = tracer_checked_in_on_every_path [OF start3 two_running]
  note b = tracer_checked_in_on_every_path [OF start3 start3_empty]
  from a r f q have 1: "\<exists>st'. step units3 0 st_two_running = Some st' \<and> tracer_queue st' = [0]
        \<and> tasks st' ! 0 = CheckedIn (Inl (NonException ''KeyboardInterrupt''))"
    by (metis append_Nil)
  from a q have 2: "mset (tracer_queue st_two_running @ held (tasks st_two_running)) = mset [0, 1]"
    by simp
  from b q have 3: "length (tracer_queue st_start) = nat 2" by blast
  from a p have 4: "\<exists>sched' st'. run_schedule units3 sched' st_two_running = Some st'
         \<and> list_all is_Done (tasks st')" by blast
  from 1 2 3 4 q(3) show ?thesis by blast
qed

subsection \<open>Building the pool\<close>

lemma build_pool_tracer_initializer:
  assumes "build_pool (tracer_initializer en sname) k q s = (res, s')"
  shows "sh_results s' = sh_results s \<and> sh_num_processed s' = sh_num_processed s
       \<and> (\<exists>j\<le>k. sh_calls s' = sh_calls s @ replicate j (CallEnsureSession sname)
              \<and> (case res of Inl e \<Rightarrow> 0 < j | Inr q' \<Rightarrow> j = k))"
  using assms
proof (induction k arbitrary: q s)
  case 0
  then show ?case by auto
next
  case (Suc k)
  let ?s1 = "s\<lparr>sh_tracers := sh_tracers s @ [new_tracer sname],
                 sh_calls := sh_calls s @ [CallEnsureSession sname]\<rparr>"
  show ?case
  proof (cases "ensure_session en (sh_calls s)")
    case (Some e)
    then have "tracer_initializer en sname s = (Inl e, ?s1)"
      by (simp add: tracer_initializer_def Let_def)
    with Suc.prems have "res = Inl e" and "s' = ?s1" by simp_all
    then have "sh_calls s' = sh_calls s @ replicate 1 (CallEnsureSession sname)"
      and "sh_results s' = sh_results s" and "sh_num_processed s' = sh_num_processed s"
      by simp_all
    with \<open>res = Inl e\<close> show ?thesis by (intro conjI exI [of _ 1]) simp_all
  next
    case None
    then have "tracer_initializer en sname s = (Inr (length (sh_tracers s)), ?s1)"
      by (simp add: tracer_initializer_def Let_def)
    with Suc.prems have
      "build_pool (tracer_initializer en sname) k (q @ [length (sh_tracers s)]) ?s1 = (res, s')"
      by simp
    from Suc.IH [OF this] obtain j where
      j: "j \<le> k" "sh_calls s' = sh_calls ?s1 @ replicate j (CallEnsureSession sname)"
         "case res of Inl e \<Rightarrow> 0 < j | Inr q' \<Rightarrow> j = k"
      and r: "sh_results s' = sh_results s" "sh_num_processed s' = sh_num_processed s"
      by auto
    from j(2) have "sh_calls s' = sh_calls s @ replicate (Suc j) (CallEnsureSession sname)"
      by (simp add: replicate_app_Cons_same)
    moreover from j(1) have "Suc j \<le> Suc k" by simp
    moreover from j(3) have "case res of Inl e \<Rightarrow> 0 < Suc j | Inr q' \<Rightarrow> Suc j = Suc k"
      by (auto split: sum.splits)
    ultimately show ?thesis using r by blast
  qed
qed

text \<open>
  C5. When \<^verbatim>\<open>_tracer_initializer\<close> raises while the pool of \<open>n\<close> tracers is built,
  \<^verbatim>\<open>arun_on_dataset\<close> raises that error under every interleaving: after fetching the
  examples it has only called \<^verbatim>\<open>ensure_session\<close>, at most \<open>n\<close> times, no evaluator has
  run, nothing was written to \<^verbatim>\<open>results\<close> and nothing was counted as processed.
\<close>

theorem pool_failure_aborts_before_any_evaluation:
  assumes "get_session_name en session_name_opt t dataset_name log = (Inr sname, log1)"
    and "fetch_examples en dataset_name log1 = (Inr examples, log2)"
    and "0 \<le> n"
    and "build_pool (tracer_initializer en sname) (nat n) []
           \<lparr>sh_calls = log2, sh_tracers = [], sh_num_processed = 0, sh_results = []\<rparr> = (Inl e, s')"
  shows "arun_on_dataset en dataset_name t n r session_name_opt verbose sched log =
           Some (Inl e, sh_calls s')
       \<and> sh_results s' = [] \<and> sh_num_processed s' = 0
       \<and> (\<exists>j. 0 < j \<and> j \<le> nat n \<and> sh_calls s' = log2 @ replicate j (CallEnsureSession sname))"
proof -
  from assms(3,4) have
    "gather_with_concurrency n (tracer_initializer en sname)
        (map (process_example en t r verbose) examples) sched
        \<lparr>sh_calls = log2, sh_tracers = [], sh_num_processed = 0, sh_results = []\<rparr> =
     Some (Inl e, s')"
    by (simp add: gather_with_concurrency_def gather_start_def)
  with assms(1,2) have
    "arun_on_dataset en dataset_name t n r session_name_opt verbose sched log =
       Some (Inl e, sh_calls s')"
    by (simp add: arun_on_dataset_def)
  moreover from build_pool_tracer_initializer [OF assms(4)]
  have "sh_results s' = [] \<and> sh_num_processed s' = 0
       \<and> (\<exists>j. 0 < j \<and> j \<le> nat n \<and> sh_calls s' = log2 @ replicate j (CallEnsureSession sname))"
    by auto
  ultimately show ?thesis by blast
qed

theorem pool_failure_aborts_before_any_evaluation_witness:
  "arun_on_dataset env_no_session ''ds'' ChainFactory 2 1 (Some ''s'') False [0, 1] [] =
     Some (Inl (OtherException ''unreachable''),
           [CallReadDataset ''ds'', CallListExamples ''ds-id'',
            CallEnsureSession ''s'', CallEnsureSession ''s''])"
proof -
  have a: "get_session_name env_no_session (Some ''s'') ChainFactory ''ds'' [] = (Inr ''s'', [])"
    by (simp add: get_session_name_def)
  have b: "fetch_examples env_no_session ''ds'' [] =
             (Inr [exA, exB, exC], [CallReadDataset ''ds'', CallListExamples ''ds-id''])"
    by (simp add: fetch_examples_def env_no_session_def env_ok_def)
  have c: "(0::int) \<le> 2" by simp
  have d: "build_pool (tracer_initializer env_no_session ''s'') (nat 2) []
             \<lparr>sh_calls = [CallReadDataset ''ds'', CallListExamples ''ds-id''],
              sh_tracers = [], sh_num_processed = 0, sh_results = []\<rparr> =
           (Inl (OtherException ''unreachable''),
            \<lparr>sh_calls = [CallReadDataset ''ds'', CallListExamples ''ds-id'',
                         CallEnsureSession ''s'', CallEnsureSession ''s''],
             sh_tracers = [new_tracer ''s'', new_tracer ''s''],
             sh_num_processed = 0, sh_results = []\<rparr>)"
    by (simp add: tracer_initializer_def env_no_session_def env_ok_def eval_nat_numeral)
  show ?thesis
    using pool_failure_aborts_before_any_evaluation [OF a b c d, of 1 False "[0, 1]"]
    by simp
qed

lemma run_schedule_blocked:
  assumes "semaphore st = 0" and "tasks st = replicate k Waiting"
  shows "run_schedule fs sched st = (if sched = [] then Some st else None)"
proof (cases sched)
  case Nil
  then show ?thesis by simp
next
  case (Cons i rest)
  from assms have "step fs i st = None" by (simp add: step_def)
  with Cons show ?thesis by simp
qed

text \<open>
  C6, as the code has it. \<^verbatim>\<open>arun_on_dataset\<close> does not check \<^verbatim>\<open>concurrency_level\<close>.
  Once the session name and the examples are there, a negative level makes
  \<^verbatim>\<open>asyncio.Semaphore\<close> raise \<^verbatim>\<open>ValueError\<close> before the initializer is called. Level zero
  raises nothing and calls no initializer: with no example the call returns the empty
  map, and with at least one it never returns under any interleaving, since no coroutine
  can pass the semaphore. The coroutines start on an empty queue, with the log as the
  fetch left it and no tracer built.
\<close>

theorem concurrency_level_not_validated:
  assumes "get_session_name en session_name_opt t dataset_name log = (Inr sname, log1)"
    and "fetch_examples en dataset_name log1 = (Inr examples, log2)"
  shows "(n < 0 \<longrightarrow>
            arun_on_dataset en dataset_name t n r session_name_opt verbose sched log =
              Some (Inl (ValueError ''Semaphore initial value must be >= 0''), log2))
       \<and> (n = 0 \<longrightarrow>
            arun_on_dataset en dataset_name t n r session_name_opt verbose sched log =
              (if examples = [] \<and> sched = [] then Some (Inr [], log2) else None)
          \<and> gather_start n (tracer_initializer en sname)
              (map (process_example en t r verbose) examples)
              \<lparr>sh_calls = log2, sh_tracers = [], sh_num_processed = 0, sh_results = []\<rparr> =
            (Inr \<lparr>semaphore = 0, tracer_queue = [],
                  tasks = replicate (length examples) Waiting, first_raised = None,
                  shared_state =
                    \<lparr>sh_calls = log2, sh_tracers = [], sh_num_processed = 0, sh_results = []\<rparr>\<rparr>,
             \<lparr>sh_calls = log2, sh_tracers = [], sh_num_processed = 0, sh_results = []\<rparr>))"
proof (intro conjI impI)
  assume "n < 0"
  with assms show "arun_on_dataset en dataset_name t n r session_name_opt verbose sched log =
              Some (Inl (ValueError ''Semaphore initial value must be >= 0''), log2)"
    by (simp add: arun_on_dataset_def gather_with_concurrency_def gather_start_def)
next
  assume n: "n = 0"
  let ?fs = "map (process_example en t r verbose) examples"
  let ?s = "\<lparr>sh_calls = log2, sh_tracers = [], sh_num_processed = 0, sh_results = []\<rparr>"
  let ?st0 = "\<lparr>semaphore = 0, tracer_queue = [], tasks = replicate (length examples) Waiting,
               first_raised = None, shared_state = ?s\<rparr>"
  have g: "gather_start n (tracer_initializer en sname) ?fs ?s = (Inr ?st0, ?s)"
    using n by (simp add: gather_start_def)
  have b: "run_schedule ?fs sched ?st0 = (if sched = [] then Some ?st0 else None)"
    by (rule run_schedule_blocked) simp_all
  have d: "list_all is_Done (replicate (length examples) Waiting) = (examples = [])"
    by (cases examples) simp_all
  have "gather_with_concurrency n (tracer_initializer en sname) ?fs sched ?s =
          (if examples = [] \<and> sched = [] then Some (Inr [], ?s) else None)"
    by (simp add: gather_with_concurrency_def g b gather_result_def d)
  with assms show "arun_on_dataset en dataset_name t n r session_name_opt verbose sched log =
              (if examples = [] \<and> sched = [] then Some (Inr [], log2) else None)"
    by (simp add: arun_on_dataset_def)
next
  assume "n = 0"
  then show "gather_start n (tracer_initializer en sname)
              (map (process_example en t r verbose) examples)
              \<lparr>sh_calls = log2, sh_tracers = [], sh_num_processed = 0, sh_results = []\<rparr> =
            (Inr \<lparr>semaphore = 0, tracer_queue = [],
                  tasks = replicate (length examples) Waiting, first_raised = None,
                  shared_state =
                    \<lparr>sh_calls = log2, sh_tracers = [], sh_num_processed = 0, sh_results = []\<rparr>\<rparr>,
             \<lparr>sh_calls = log2, sh_tracers = [], sh_num_processed = 0, sh_results = []\<rparr>)"
    by (simp add: gather_start_def)
qed

theorem concurrency_level_not_validated_witness:
  "arun_on_dataset env_one ''ds'' ChainFactory (- 1) 1 (Some ''s'') False [0] [] =
     Some (Inl (ValueError ''Semaphore initial value must be >= 0''),
           [CallReadDataset ''ds'', CallListExamples ''ds-id''])
   \<and> arun_on_dataset env_one ''ds'' ChainFactory 0 1 (Some ''s'') False [0] [] = None"
proof -
  have a: "get_session_name env_one (Some ''s'') ChainFactory ''ds'' [] = (Inr ''s'', [])"
    by (simp add: get_session_name_def)
  have b: "fetch_examples env_one ''ds'' [] =
             (Inr [exA], [CallReadDataset ''ds'', CallListExamples ''ds-id''])"
    by (simp add: fetch_examples_def env_one_def env_ok_def)
  show ?thesis
    using concurrency_level_not_validated [OF a b, of "- 1" 1 False "[0]"]
      concurrency_level_not_validated [OF a b, of 0 1 False "[0]"]
    by simp
qed

text \<open>
  C6 as stated fails: with level zero the call on an empty dataset returns the empty map,
  no error; on a dataset of one example it has not returned before any move, and the only
  coroutine cannot move.
\<close>

theorem zero_concurrency_raises_nothing:
  "arun_on_dataset env_empty ''ds'' ChainFactory 0 1 (Some ''s'') False [] [] =
     Some (Inr [], [CallReadDataset ''ds'', CallListExamples ''ds-id''])
   \<and> arun_on_dataset env_one ''ds'' ChainFactory 0 1 (Some ''s'') False [] [] = None
   \<and> arun_on_dataset env_one ''ds'' ChainFactory 0 1 (Some ''s'') False [0] [] = None"
  by (simp add: gather_defs get_session_name_def fetch_examples_def input_defs)

end
